theory Spec2Isabelle
  imports Complex_Main "HOL-Library.Multiset"
begin

section \<open>Shared types and constants (types/tetris.ts)\<close>

datatype TetrominoType = I_piece | O_piece | T_piece | S_piece | Z_piece | J_piece | L_piece

datatype RotationState = SPAWN | RIGHT | DOUBLE | LEFT

datatype GameState = IDLE | PLAYING | PAUSED | GAME_OVER | COMPLETED

record Position =
  pos_x :: int
  pos_y :: int

record Piece =
  ptype :: TetrominoType
  position :: Position
  rotation :: RotationState
  locked :: bool
  piece_lockTimer :: rat

record GameStats =
  score :: int
  level :: int
  lines :: int
  combo :: int
  backToBack :: bool

abbreviation (input) BOARD_WIDTH :: nat where "BOARD_WIDTH \<equiv> 10"
abbreviation (input) BOARD_HEIGHT :: nat where "BOARD_HEIGHT \<equiv> 20"
abbreviation (input) HIDDEN_ROWS :: nat where "HIDDEN_ROWS \<equiv> 2"
abbreviation (input) TOTAL_HEIGHT :: nat where "TOTAL_HEIGHT \<equiv> 22"

abbreviation (input) LOCK_DELAY :: rat where "LOCK_DELAY \<equiv> 500"
abbreviation (input) DAS_DELAY :: rat where "DAS_DELAY \<equiv> 170"
abbreviation (input) DAS_PERIOD :: rat where "DAS_PERIOD \<equiv> 50"

abbreviation (input) SCORE_SINGLE :: int where "SCORE_SINGLE \<equiv> 100"
abbreviation (input) SCORE_DOUBLE :: int where "SCORE_DOUBLE \<equiv> 300"
abbreviation (input) SCORE_TRIPLE :: int where "SCORE_TRIPLE \<equiv> 500"
abbreviation (input) SCORE_TETRIS :: int where "SCORE_TETRIS \<equiv> 800"
abbreviation (input) SCORE_SOFT_DROP :: int where "SCORE_SOFT_DROP \<equiv> 1"
abbreviation (input) SCORE_HARD_DROP :: int where "SCORE_HARD_DROP \<equiv> 2"

text \<open>
  The numeric value of a rotation state, and the enum member of a number in 0..3
  (the casts \<^verbatim>\<open>as RotationState\<close> of piece.ts).
\<close>

fun rot_num :: "RotationState \<Rightarrow> nat" where
  "rot_num SPAWN = 0"
| "rot_num RIGHT = 1"
| "rot_num DOUBLE = 2"
| "rot_num LEFT = 3"

definition rot_of :: "nat \<Rightarrow> RotationState" where
  "rot_of n = (if n = 0 then SPAWN else if n = 1 then RIGHT else if n = 2 then DOUBLE else LEFT)"

section \<open>Shapes and wall kicks (core/piece.ts)\<close>

fun TETROMINO_SHAPES :: "TetrominoType \<Rightarrow> RotationState \<Rightarrow> nat list list" where
  "TETROMINO_SHAPES I_piece SPAWN = [[0, 0, 0, 0], [1, 1, 1, 1], [0, 0, 0, 0], [0, 0, 0, 0]]"
| "TETROMINO_SHAPES I_piece RIGHT = [[0, 0, 1, 0], [0, 0, 1, 0], [0, 0, 1, 0], [0, 0, 1, 0]]"
| "TETROMINO_SHAPES I_piece DOUBLE = [[0, 0, 0, 0], [0, 0, 0, 0], [1, 1, 1, 1], [0, 0, 0, 0]]"
| "TETROMINO_SHAPES I_piece LEFT = [[0, 1, 0, 0], [0, 1, 0, 0], [0, 1, 0, 0], [0, 1, 0, 0]]"
| "TETROMINO_SHAPES O_piece SPAWN = [[0, 1, 1, 0], [0, 1, 1, 0], [0, 0, 0, 0], [0, 0, 0, 0]]"
| "TETROMINO_SHAPES O_piece RIGHT = [[0, 1, 1, 0], [0, 1, 1, 0], [0, 0, 0, 0], [0, 0, 0, 0]]"
| "TETROMINO_SHAPES O_piece DOUBLE = [[0, 1, 1, 0], [0, 1, 1, 0], [0, 0, 0, 0], [0, 0, 0, 0]]"
| "TETROMINO_SHAPES O_piece LEFT = [[0, 1, 1, 0], [0, 1, 1, 0], [0, 0, 0, 0], [0, 0, 0, 0]]"
| "TETROMINO_SHAPES T_piece SPAWN = [[0, 1, 0], [1, 1, 1], [0, 0, 0]]"
| "TETROMINO_SHAPES T_piece RIGHT = [[0, 1, 0], [0, 1, 1], [0, 1, 0]]"
| "TETROMINO_SHAPES T_piece DOUBLE = [[0, 0, 0], [1, 1, 1], [0, 1, 0]]"
| "TETROMINO_SHAPES T_piece LEFT = [[0, 1, 0], [1, 1, 0], [0, 1, 0]]"
| "TETROMINO_SHAPES S_piece SPAWN = [[0, 1, 1], [1, 1, 0], [0, 0, 0]]"
| "TETROMINO_SHAPES S_piece RIGHT = [[0, 1, 0], [0, 1, 1], [0, 0, 1]]"
| "TETROMINO_SHAPES S_piece DOUBLE = [[0, 0, 0], [0, 1, 1], [1, 1, 0]]"
| "TETROMINO_SHAPES S_piece LEFT = [[1, 0, 0], [1, 1, 0], [0, 1, 0]]"
| "TETROMINO_SHAPES Z_piece SPAWN = [[1, 1, 0], [0, 1, 1], [0, 0, 0]]"
| "TETROMINO_SHAPES Z_piece RIGHT = [[0, 0, 1], [0, 1, 1], [0, 1, 0]]"
| "TETROMINO_SHAPES Z_piece DOUBLE = [[0, 0, 0], [1, 1, 0], [0, 1, 1]]"
| "TETROMINO_SHAPES Z_piece LEFT = [[0, 1, 0], [1, 1, 0], [1, 0, 0]]"
| "TETROMINO_SHAPES J_piece SPAWN = [[1, 0, 0], [1, 1, 1], [0, 0, 0]]"
| "TETROMINO_SHAPES J_piece RIGHT = [[0, 1, 1], [0, 1, 0], [0, 1, 0]]"
| "TETROMINO_SHAPES J_piece DOUBLE = [[0, 0, 0], [1, 1, 1], [0, 0, 1]]"
| "TETROMINO_SHAPES J_piece LEFT = [[0, 1, 0], [0, 1, 0], [1, 1, 0]]"
| "TETROMINO_SHAPES L_piece SPAWN = [[0, 0, 1], [1, 1, 1], [0, 0, 0]]"
| "TETROMINO_SHAPES L_piece RIGHT = [[0, 1, 0], [0, 1, 0], [0, 1, 1]]"
| "TETROMINO_SHAPES L_piece DOUBLE = [[0, 0, 0], [1, 1, 1], [1, 0, 0]]"
| "TETROMINO_SHAPES L_piece LEFT = [[1, 1, 0], [0, 1, 0], [0, 1, 0]]"

definition mkpos :: "int \<Rightarrow> int \<Rightarrow> Position" where
  "mkpos a b = \<lparr>pos_x = a, pos_y = b\<rparr>"

text \<open>
  The two kick tables are JavaScript records keyed by the string \<^verbatim>\<open>from->to\<close>; a key
  that is absent reads as undefined, here \<open>None\<close>.
\<close>

fun WALL_KICK_DATA :: "RotationState \<Rightarrow> RotationState \<Rightarrow> Position list option" where
  "WALL_KICK_DATA SPAWN RIGHT = Some [mkpos (-1) 0, mkpos (-1) 1, mkpos 0 (-2), mkpos (-1) (-2)]"
| "WALL_KICK_DATA RIGHT SPAWN = Some [mkpos 1 0, mkpos 1 (-1), mkpos 0 2, mkpos 1 2]"
| "WALL_KICK_DATA RIGHT DOUBLE = Some [mkpos 1 0, mkpos 1 (-1), mkpos 0 2, mkpos 1 2]"
| "WALL_KICK_DATA DOUBLE RIGHT = Some [mkpos (-1) 0, mkpos (-1) 1, mkpos 0 (-2), mkpos (-1) (-2)]"
| "WALL_KICK_DATA DOUBLE LEFT = Some [mkpos 1 0, mkpos 1 1, mkpos 0 (-2), mkpos 1 (-2)]"
| "WALL_KICK_DATA LEFT DOUBLE = Some [mkpos (-1) 0, mkpos (-1) (-1), mkpos 0 2, mkpos (-1) 2]"
| "WALL_KICK_DATA LEFT SPAWN = Some [mkpos (-1) 0, mkpos (-1) (-1), mkpos 0 2, mkpos (-1) 2]"
| "WALL_KICK_DATA SPAWN LEFT = Some [mkpos 1 0, mkpos 1 1, mkpos 0 (-2), mkpos 1 (-2)]"
| "WALL_KICK_DATA _ _ = None"

fun I_WALL_KICK_DATA :: "RotationState \<Rightarrow> RotationState \<Rightarrow> Position list option" where
  "I_WALL_KICK_DATA SPAWN RIGHT = Some [mkpos (-2) 0, mkpos 1 0, mkpos (-2) (-1), mkpos 1 2]"
| "I_WALL_KICK_DATA RIGHT SPAWN = Some [mkpos 2 0, mkpos (-1) 0, mkpos 2 1, mkpos (-1) (-2)]"
| "I_WALL_KICK_DATA RIGHT DOUBLE = Some [mkpos (-1) 0, mkpos 2 0, mkpos (-1) 2, mkpos 2 (-1)]"
| "I_WALL_KICK_DATA DOUBLE RIGHT = Some [mkpos 1 0, mkpos (-2) 0, mkpos 1 (-2), mkpos (-2) 1]"
| "I_WALL_KICK_DATA DOUBLE LEFT = Some [mkpos 2 0, mkpos (-1) 0, mkpos 2 1, mkpos (-1) (-2)]"
| "I_WALL_KICK_DATA LEFT DOUBLE = Some [mkpos (-2) 0, mkpos 1 0, mkpos (-2) (-1), mkpos 1 2]"
| "I_WALL_KICK_DATA LEFT SPAWN = Some [mkpos 1 0, mkpos (-2) 0, mkpos 1 (-2), mkpos (-2) 1]"
| "I_WALL_KICK_DATA SPAWN LEFT = Some [mkpos (-1) 0, mkpos 2 0, mkpos (-1) 2, mkpos 2 (-1)]"
| "I_WALL_KICK_DATA _ _ = None"

definition getShape :: "TetrominoType \<Rightarrow> RotationState \<Rightarrow> nat list list" where
  "getShape t r = TETROMINO_SHAPES t r"

definition getWallKickOffsets ::
  "TetrominoType \<Rightarrow> RotationState \<Rightarrow> RotationState \<Rightarrow> Position list" where
  "getWallKickOffsets t fromRotation toRotation =
     (if t = I_piece then
        (case I_WALL_KICK_DATA fromRotation toRotation of Some ks \<Rightarrow> ks | None \<Rightarrow> [])
      else if t = O_piece then []
      else (case WALL_KICK_DATA fromRotation toRotation of Some ks \<Rightarrow> ks | None \<Rightarrow> []))"

definition getNextRotationCW :: "RotationState \<Rightarrow> RotationState" where
  "getNextRotationCW r = rot_of ((rot_num r + 1) mod 4)"

definition getNextRotationCCW :: "RotationState \<Rightarrow> RotationState" where
  "getNextRotationCCW r = rot_of ((rot_num r + 3) mod 4)"

definition getSpawnPosition :: "TetrominoType \<Rightarrow> Position" where
  "getSpawnPosition t =
     (let shape = TETROMINO_SHAPES t SPAWN;
          width = int (length (hd shape))
      in \<lparr>pos_x = (10 - width) div 2, pos_y = (if t = I_piece then 0 else 1)\<rparr>)"

section \<open>The board (core/board.ts)\<close>

text \<open>
  A cell is \<open>None\<close> (null) or holds a piece type. The grid is a list of rows, row 0 at the
  top. Board creates it with 22 rows of 10 cells and only lockPiece and clearLines
  change it; \<open>wf_grid\<close> states these dimensions. Every read \<open>g ! r ! c\<close> below is
  guarded by the source's own bounds checks against 22 and 10, so on a grid of these
  dimensions it is in range.
\<close>

type_synonym Grid = "TetrominoType option list list"

definition wf_grid :: "Grid \<Rightarrow> bool" where
  "wf_grid g = (length g = TOTAL_HEIGHT \<and> list_all (\<lambda>r. length r = BOARD_WIDTH) g)"

definition createEmptyGrid :: Grid where
  "createEmptyGrid = replicate TOTAL_HEIGHT (replicate BOARD_WIDTH None)"

text \<open>
  isValidPosition: the inner loop over the columns of one shape row, then the outer loop
  over the rows. \<open>False\<close> is the source's early \<^verbatim>\<open>return false\<close>.
\<close>

fun validCols :: "Grid \<Rightarrow> Position \<Rightarrow> int \<Rightarrow> int \<Rightarrow> nat list \<Rightarrow> bool" where
  "validCols g p row col [] = True"
| "validCols g p row col (v # vs) =
     (if v = 0 then validCols g p row (col + 1) vs
      else
        (let boardX = pos_x p + col; boardY = pos_y p + row in
         if boardX < 0 \<or> boardX \<ge> int BOARD_WIDTH then False
         else if boardY \<ge> 0 \<and> boardY < int TOTAL_HEIGHT \<and> g ! nat boardY ! nat boardX \<noteq> None
           then False
         else if boardY \<ge> int TOTAL_HEIGHT then False
         else validCols g p row (col + 1) vs))"

fun validRows :: "Grid \<Rightarrow> Position \<Rightarrow> int \<Rightarrow> nat list list \<Rightarrow> bool" where
  "validRows g p row [] = True"
| "validRows g p row (r # rs) =
     (if validCols g p row 0 r then validRows g p (row + 1) rs else False)"

definition isValidPosition :: "Grid \<Rightarrow> TetrominoType \<Rightarrow> Position \<Rightarrow> RotationState \<Rightarrow> bool" where
  "isValidPosition g t p r = validRows g p 0 (getShape t r)"

fun lockCols :: "Grid \<Rightarrow> TetrominoType \<Rightarrow> Position \<Rightarrow> int \<Rightarrow> int \<Rightarrow> nat list \<Rightarrow> Grid" where
  "lockCols g t p row col [] = g"
| "lockCols g t p row col (v # vs) =
     (if v = 0 then lockCols g t p row (col + 1) vs
      else
        (let boardX = pos_x p + col; boardY = pos_y p + row in
         if boardY \<ge> 0 \<and> boardY < int TOTAL_HEIGHT \<and> boardX \<ge> 0 \<and> boardX < int BOARD_WIDTH
         then lockCols (g[nat boardY := (g ! nat boardY)[nat boardX := Some t]]) t p row (col + 1) vs
         else lockCols g t p row (col + 1) vs))"

fun lockRows :: "Grid \<Rightarrow> TetrominoType \<Rightarrow> Position \<Rightarrow> int \<Rightarrow> nat list list \<Rightarrow> Grid" where
  "lockRows g t p row [] = g"
| "lockRows g t p row (r # rs) = lockRows (lockCols g t p row 0 r) t p (row + 1) rs"

definition lockPiece :: "Grid \<Rightarrow> TetrominoType \<Rightarrow> Position \<Rightarrow> RotationState \<Rightarrow> Grid" where
  "lockPiece g t p r = lockRows g t p 0 (getShape t r)"

text \<open>
  isLineFull: a row that does not exist or has a length other than the board width is not
  full; otherwise every cell must hold a piece type (the membership test against the
  enum values is true of every \<open>Some t\<close>).
\<close>

definition isLineFull :: "Grid \<Rightarrow> int \<Rightarrow> bool" where
  "isLineFull g row =
     (if row < 0 \<or> row \<ge> int TOTAL_HEIGHT \<or> \<not> nat row < length g then False
      else if length (g ! nat row) \<noteq> BOARD_WIDTH then False
      else list_all (\<lambda>cell. cell \<noteq> None) (g ! nat row))"

text \<open>\<^verbatim>\<open>grid.splice(row, 1); grid.unshift(Array(BOARD_WIDTH).fill(null))\<close>\<close>

definition removeRow :: "Grid \<Rightarrow> int \<Rightarrow> Grid" where
  "removeRow g row = replicate BOARD_WIDTH None # (take (nat row) g @ drop (Suc (nat row)) g)"

definition fullRows :: "Grid \<Rightarrow> nat" where
  "fullRows g = length (filter (\<lambda>r. length r = BOARD_WIDTH \<and> list_all (\<lambda>cell. cell \<noteq> None) r) g)"

text \<open>
  The scan of clearLines: \<open>row\<close> runs from the bottom row upwards and is not decremented
  after a removal; \<open>cleared\<close> is the list the source pushes to.
\<close>

function clearLines_loop :: "Grid \<Rightarrow> int \<Rightarrow> int list \<Rightarrow> Grid \<times> int list" where
  "clearLines_loop g row cleared =
     (if row \<ge> 0 then
        (if isLineFull g row then clearLines_loop (removeRow g row) row (cleared @ [row])
         else clearLines_loop g (row - 1) cleared)
      else (g, cleared))"
  by pat_completeness auto
termination
proof (relation "measure (\<lambda>(g, row, cleared). fullRows g + nat (row + 1))")
  fix g :: Grid and row :: int and cleared :: "int list"
  assume "0 \<le> row" and full: "isLineFull g row"
  from full have r: "nat row < length g"
    and f: "length (g ! nat row) = BOARD_WIDTH" "list_all (\<lambda>cell. cell \<noteq> None) (g ! nat row)"
    by (auto simp: isLineFull_def split: if_splits)
  have g: "g = take (nat row) g @ (g ! nat row) # drop (Suc (nat row)) g"
    using r by (simp add: id_take_nth_drop)
  have "fullRows g = Suc (fullRows (take (nat row) g @ drop (Suc (nat row)) g))"
    by (subst g) (use f in \<open>simp add: fullRows_def\<close>)
  moreover have "fullRows (removeRow g row) = fullRows (take (nat row) g @ drop (Suc (nat row)) g)"
    by (simp add: fullRows_def removeRow_def list_all_iff)
  ultimately show "((removeRow g row, row, cleared @ [row]), g, row, cleared)
      \<in> measure (\<lambda>(g, row, cleared). fullRows g + nat (row + 1))"
    by simp
qed auto

declare clearLines_loop.simps [simp del]

definition clearLines :: "Grid \<Rightarrow> Grid \<times> int list" where
  "clearLines g = (let (g', cleared) = clearLines_loop g (int TOTAL_HEIGHT - 1) [] in (g', rev cleared))"

text \<open>isGameOver is the constant false in the source.\<close>

definition isGameOver :: "Grid \<Rightarrow> bool" where
  "isGameOver g = False"

text \<open>
  getBoardStats: the scan of one column from the top row down, carrying the array of
  column heights, the hole count and the flag foundBlock; then the loop over the columns,
  the loop that sums the height differences, and the maximum of the column heights.
\<close>

record BoardStats =
  stat_height :: int
  stat_holes :: int
  stat_bumpiness :: int

fun scanRows :: "Grid \<Rightarrow> nat \<Rightarrow> nat list \<Rightarrow> int list \<times> int \<times> bool \<Rightarrow> int list \<times> int \<times> bool" where
  "scanRows g col [] st = st"
| "scanRows g col (row # rows) (columnHeights, holes, foundBlock) =
     (if g ! row ! col \<noteq> None then
        (if \<not> foundBlock
         then scanRows g col rows (columnHeights[col := int TOTAL_HEIGHT - int row], holes, True)
         else scanRows g col rows (columnHeights, holes, foundBlock))
      else if foundBlock then scanRows g col rows (columnHeights, holes + 1, foundBlock)
      else scanRows g col rows (columnHeights, holes, foundBlock))"

fun scanCols :: "Grid \<Rightarrow> nat list \<Rightarrow> int list \<times> int \<Rightarrow> int list \<times> int" where
  "scanCols g [] st = st"
| "scanCols g (col # cols) (columnHeights, holes) =
     (case scanRows g col [0..<TOTAL_HEIGHT] (columnHeights, holes, False) of
        (columnHeights', holes', _) \<Rightarrow> scanCols g cols (columnHeights', holes'))"

fun bumpLoop :: "int list \<Rightarrow> nat list \<Rightarrow> int \<Rightarrow> int" where
  "bumpLoop columnHeights [] bumpiness = bumpiness"
| "bumpLoop columnHeights (i # rest) bumpiness =
     bumpLoop columnHeights rest (bumpiness + \<bar>columnHeights ! i - columnHeights ! (i + 1)\<bar>)"

definition getBoardStats :: "Grid \<Rightarrow> BoardStats" where
  "getBoardStats g =
     (case scanCols g [0..<BOARD_WIDTH] (replicate BOARD_WIDTH 0, 0) of
        (columnHeights, holes) \<Rightarrow>
          \<lparr>stat_height = Max (set columnHeights),
           stat_holes = holes,
           stat_bumpiness = bumpLoop columnHeights [0..<BOARD_WIDTH - 1] 0\<rparr>)"

section \<open>The 7-bag randomizer (core/bag.ts)\<close>

text \<open>
  The seed is a JavaScript number. The model covers integer seeds and computes exactly;
  this agrees with the double arithmetic of the source whenever every intermediate value
  is an integer below \<open>2^53\<close> in magnitude, which holds from the first call of random on for
  every integer seed of magnitude at most \<open>2^32\<close> (after one call the seed is an integer of
  magnitude below \<open>2^31\<close>, and \<open>2^31 * 1664525 + 1013904223 < 2^53\<close>).

  The JavaScript remainder \<^verbatim>\<open>a % b\<close> takes the sign of the dividend.
\<close>

definition js_rem :: "int \<Rightarrow> int \<Rightarrow> int" where
  "js_rem a b = sgn a * (\<bar>a\<bar> mod \<bar>b\<bar>)"

text \<open>random: the new seed, and the returned number \<open>seed / 2147483648\<close>.\<close>

definition bag_random :: "int \<Rightarrow> rat \<times> int" where
  "bag_random sd =
     (let sd' = js_rem (sd * 1664525 + 1013904223) 2147483648
      in (of_int sd' / 2147483648, sd'))"

text \<open>
  A bag is an array whose elements are piece types; \<open>None\<close> is JavaScript's undefined.
  During the shuffle the array is read and written at the computed index \<open>j\<close>. For
  \<open>0 \<le> j < length\<close> that is an element; any other integer \<open>j\<close> names a property of the
  array object that is not an element: it reads as undefined until it is written, a write
  keeps the value for later reads, and neither changes the length. The array object
  is therefore modelled as a function from integer keys to values, the elements being
  the keys \<open>0..<length\<close>.
\<close>

type_synonym JsArray = "int \<Rightarrow> TetrominoType option"

definition arr_of :: "TetrominoType option list \<Rightarrow> JsArray" where
  "arr_of xs = (\<lambda>k. if 0 \<le> k \<and> k < int (length xs) then xs ! nat k else None)"

definition list_of :: "nat \<Rightarrow> JsArray \<Rightarrow> TetrominoType option list" where
  "list_of n a = map (\<lambda>k. a (int k)) [0..<n]"

text \<open>
  The Fisher-Yates loop \<^verbatim>\<open>for (i = bag.length - 1; i > 0; i--)\<close> with
  \<^verbatim>\<open>j = Math.floor(this.random() * (i + 1))\<close> and the swap of \<open>bag[i]\<close> and \<open>bag[j]\<close>.
\<close>

fun shuffle_loop :: "nat \<Rightarrow> JsArray \<Rightarrow> int \<Rightarrow> JsArray \<times> int" where
  "shuffle_loop 0 a sd = (a, sd)"
| "shuffle_loop (Suc n) a sd =
     (case bag_random sd of (r, sd') \<Rightarrow>
        (let i = int (Suc n);
             j = \<lfloor>r * of_int (i + 1)\<rfloor>
         in shuffle_loop n (a(i := a j, j := a i)) sd'))"

definition all_types :: "TetrominoType list" where
  "all_types = [I_piece, O_piece, T_piece, S_piece, Z_piece, J_piece, L_piece]"

definition fillBag :: "TetrominoType option list \<Rightarrow> int \<Rightarrow> TetrominoType option list \<times> int" where
  "fillBag bag sd =
     (let b = bag @ map Some all_types in
      case shuffle_loop (length b - 1) (arr_of b) sd of
        (a, sd') \<Rightarrow> (list_of (length b) a, sd'))"

record BagRandomizer =
  currentBag :: "TetrominoType option list"
  nextBag :: "TetrominoType option list"
  seed :: int

text \<open>The constructor and reset, given the seed (the argument, or the clock).\<close>

definition bag_reset :: "int \<Rightarrow> BagRandomizer" where
  "bag_reset sd0 =
     (case fillBag [] sd0 of (c, sd1) \<Rightarrow>
      case fillBag [] sd1 of (n, sd2) \<Rightarrow>
        \<lparr>currentBag = c, nextBag = n, seed = sd2\<rparr>)"

definition BagRandomizer_new :: "int \<Rightarrow> BagRandomizer" where
  "BagRandomizer_new sd0 = bag_reset sd0"

text \<open>next: \<^verbatim>\<open>shift()\<close> of an empty array returns undefined.\<close>

definition bag_next :: "BagRandomizer \<Rightarrow> TetrominoType option \<times> BagRandomizer" where
  "bag_next b =
     (let b1 = (if currentBag b = [] then
                  (case fillBag [] (seed b) of (n, sd') \<Rightarrow>
                     b\<lparr>currentBag := nextBag b, nextBag := n, seed := sd'\<rparr>)
                else b)
      in case currentBag b1 of
           [] \<Rightarrow> (None, b1)
         | t # rest \<Rightarrow> (t, b1\<lparr>currentBag := rest\<rparr>))"

text \<open>
  preview: the loop that appends freshly filled bags while fewer than \<open>cnt\<close> (the argument count) pieces
  are at hand; fillBag draws from the randomizer's own seed. \<^verbatim>\<open>slice(0, count)\<close>
  with a negative count drops that many elements from the end.
\<close>

function preview_loop ::
  "int \<Rightarrow> TetrominoType option list \<Rightarrow> int \<Rightarrow> TetrominoType option list \<times> int" where
  "preview_loop cnt allPieces sd =
     (if int (length allPieces) < cnt then
        (case fillBag [] sd of (tempBag, sd') \<Rightarrow> preview_loop cnt (allPieces @ tempBag) sd')
      else (allPieces, sd))"
  by pat_completeness auto
termination
proof (relation "measure (\<lambda>(cnt, allPieces, sd). nat (cnt - int (length allPieces)))")
  fix cnt :: int and allPieces tempBag :: "TetrominoType option list" and sd sd' :: int
  assume lt: "int (length allPieces) < cnt" and x: "(tempBag, sd') = fillBag [] sd"
  have "length (fst (fillBag [] sd)) = 7"
    by (simp add: fillBag_def Let_def case_prod_beta list_of_def all_types_def
        del: shuffle_loop.simps)
  with x [symmetric] have "length tempBag = 7"
    by simp
  then show "((cnt, allPieces @ tempBag, sd'), cnt, allPieces, sd)
      \<in> measure (\<lambda>(cnt, allPieces, sd). nat (cnt - int (length allPieces)))"
    using lt by simp
qed simp

declare preview_loop.simps [simp del]

definition js_slice0 :: "'a list \<Rightarrow> int \<Rightarrow> 'a list" where
  "js_slice0 xs cnt =
     (if cnt < 0 then take (nat (int (length xs) + cnt)) xs else take (nat cnt) xs)"

definition preview :: "int \<Rightarrow> BagRandomizer \<Rightarrow> TetrominoType option list \<times> BagRandomizer" where
  "preview cnt b =
     (case preview_loop cnt (currentBag b @ nextBag b) (seed b) of
        (allPieces, sd') \<Rightarrow> (js_slice0 allPieces cnt, b\<lparr>seed := sd'\<rparr>))"

text \<open>The results of \<open>n\<close> successive calls of next.\<close>

fun draws :: "nat \<Rightarrow> BagRandomizer \<Rightarrow> TetrominoType option list" where
  "draws 0 b = []"
| "draws (Suc n) b = (case bag_next b of (t, b') \<Rightarrow> t # draws n b')"

section \<open>The game controller (core/game.ts)\<close>

datatype InputAction =
  MOVE_LEFT | MOVE_RIGHT | SOFT_DROP | HARD_DROP | ROTATE_CW | ROTATE_CCW | HOLD | PAUSE

text \<open>
  GameEvent: the six event types of the union
  \<^verbatim>\<open>'line_clear' | 'piece_lock' | 'game_over' | 'level_up' | 'tspin' | 'combo'\<close>, each with
  the data the controller attaches to it.
\<close>

datatype GameEvent =
  line_clear "int list"
| piece_lock Piece
| game_over
| level_up int
| tspin
| combo_event int

datatype DasDirection = das_left | das_right

text \<open>
  The controller's fields. The subscribers of eventHandlers are external code; the model
  records instead, in \<open>emitted\<close>, every event passed to emit, in order.
\<close>

record Game =
  board :: Grid
  bag :: BagRandomizer
  state :: GameState
  stats :: GameStats
  currentPiece :: "Piece option"
  holdPiece :: "TetrominoType option"
  canHold :: bool
  dropTimer :: rat
  lockTimer :: rat
  dasTimer :: rat
  dasDirection :: "DasDirection option"
  lastWasRotation :: bool
  emitted :: "GameEvent list"

definition emit :: "GameEvent \<Rightarrow> Game \<Rightarrow> Game" where
  "emit e s = s\<lparr>emitted := emitted s @ [e]\<rparr>"

definition cornerOccupied :: "Grid \<Rightarrow> int \<times> int \<Rightarrow> bool" where
  "cornerOccupied g c =
     (case c of (cx, cy) \<Rightarrow>
        cx < 0 \<or> cx \<ge> 10 \<or> cy < 0 \<or> cy \<ge> 22 \<or> g ! nat cy ! nat cx \<noteq> None)"

definition isTSpin :: "Grid \<Rightarrow> Position \<Rightarrow> RotationState \<Rightarrow> bool \<Rightarrow> bool" where
  "isTSpin g p rotation_unused lastWasRot =
     (if \<not> lastWasRot then False
      else
        (let corners = [(pos_x p, pos_y p), (pos_x p + 2, pos_y p),
                        (pos_x p, pos_y p + 2), (pos_x p + 2, pos_y p + 2)];
             occupiedCorners = length (filter (cornerOccupied g) corners)
         in occupiedCorners \<ge> 3))"

text \<open>
  spawnNextPiece. When the bag yields undefined, getSpawnPosition reads a property of
  undefined and the source throws a TypeError: the result \<open>None\<close>.
\<close>

definition spawnNextPiece :: "Game \<Rightarrow> Game option" where
  "spawnNextPiece s =
     (case bag_next (bag s) of
        (None, bag') \<Rightarrow> None
      | (Some t, bag') \<Rightarrow>
          (let pos = getSpawnPosition t;
               s1 = s\<lparr>bag := bag',
                       currentPiece := Some \<lparr>ptype = t, position = pos, rotation = SPAWN,
                                             locked = False, piece_lockTimer = 0\<rparr>,
                       dropTimer := 0, lockTimer := 0, lastWasRotation := False\<rparr>
           in if \<not> isValidPosition (board s1) t pos SPAWN
              then Some (emit game_over (s1\<lparr>state := GAME_OVER\<rparr>))
              else Some s1))"

text \<open>
  handleLineClears. The base score of four lines with back-to-back set is
  \<open>800 * 1.5 = 1200\<close>, written \<open>800 * 3 div 2\<close> over the integers.
\<close>

definition handleLineClears :: "int \<Rightarrow> Game \<Rightarrow> Game" where
  "handleLineClears numLines s =
     (let st1 = (stats s)\<lparr>lines := lines (stats s) + numLines\<rparr>;
          st2 = st1\<lparr>combo := combo st1 + 1\<rparr>;
          s2 = (if combo st2 > 1 then emit (combo_event (combo st2)) s else s);
          baseScore =
            (if numLines = 1 then SCORE_SINGLE
             else if numLines = 2 then SCORE_DOUBLE
             else if numLines = 3 then SCORE_TRIPLE
             else if numLines = 4 then
               (if backToBack st2 then SCORE_TETRIS * 3 div 2 else SCORE_TETRIS)
             else 0);
          st3 = st2\<lparr>backToBack :=
                      (if numLines = 1 \<or> numLines = 2 \<or> numLines = 3 then False
                       else if numLines = 4 then True
                       else backToBack st2)\<rparr>;
          st4 = st3\<lparr>score := score st3 + baseScore * (level st3 + 1)
                                + 50 * combo st3 * (level st3 + 1)\<rparr>;
          newLevel = min (lines st4 div 10) 29
      in if newLevel > level st4
         then emit (level_up newLevel) (s2\<lparr>stats := st4\<lparr>level := newLevel\<rparr>\<rparr>)
         else s2\<lparr>stats := st4\<rparr>)"

text \<open>lockCurrentPiece\<close>

definition lockCurrentPiece :: "Game \<Rightarrow> Game option" where
  "lockCurrentPiece s =
     (case currentPiece s of
        None \<Rightarrow> Some s
      | Some p \<Rightarrow>
          (let s1 = s\<lparr>board := lockPiece (board s) (ptype p) (position p) (rotation p)\<rparr>;
               s2 = (if ptype p = T_piece \<and>
                        isTSpin (board s1) (position p) (rotation p) (lastWasRotation s1)
                     then emit tspin s1 else s1);
               s3 = emit (piece_lock p) s2;
               cl = clearLines (board s3);
               s4 = s3\<lparr>board := fst cl\<rparr>;
               clearedLines = snd cl;
               s5 = (if length clearedLines > 0
                     then emit (line_clear clearedLines)
                            (handleLineClears (int (length clearedLines)) s4)
                     else s4\<lparr>stats := (stats s4)\<lparr>combo := 0\<rparr>\<rparr>)
           in if isGameOver (board s5) then Some (emit game_over (s5\<lparr>state := GAME_OVER\<rparr>))
              else if lines (stats s5) \<ge> 999 then Some (s5\<lparr>state := COMPLETED\<rparr>)
              else (case spawnNextPiece s5 of
                      None \<Rightarrow> None
                    | Some s6 \<Rightarrow> Some (s6\<lparr>canHold := True\<rparr>))))"

text \<open>movePiece and rotatePiece return the boolean result and the new state.\<close>

definition movePiece :: "int \<Rightarrow> int \<Rightarrow> Game \<Rightarrow> bool \<times> Game" where
  "movePiece dx dy s =
     (case currentPiece s of
        None \<Rightarrow> (False, s)
      | Some p \<Rightarrow>
          (let newPosition = \<lparr>pos_x = pos_x (position p) + dx, pos_y = pos_y (position p) + dy\<rparr>
           in if isValidPosition (board s) (ptype p) newPosition (rotation p) then
                (let s1 = s\<lparr>currentPiece := Some (p\<lparr>position := newPosition\<rparr>),
                             lastWasRotation := False\<rparr>
                 in (True, if dx \<noteq> 0 \<and> locked p then s1\<lparr>lockTimer := 0\<rparr> else s1))
              else (False, s)))"

text \<open>The loop over the wall-kick offsets, in list order, returning at the first valid one.\<close>

fun tryKicks :: "Game \<Rightarrow> Piece \<Rightarrow> RotationState \<Rightarrow> Position list \<Rightarrow> bool \<times> Game" where
  "tryKicks s p newRotation [] = (False, s)"
| "tryKicks s p newRotation (kick # kicks) =
     (let kickPosition = \<lparr>pos_x = pos_x (position p) + pos_x kick,
                           pos_y = pos_y (position p) + pos_y kick\<rparr>
      in if isValidPosition (board s) (ptype p) kickPosition newRotation then
           (let s1 = s\<lparr>currentPiece := Some (p\<lparr>position := kickPosition, rotation := newRotation\<rparr>),
                        lastWasRotation := True\<rparr>
            in (True, if locked p then s1\<lparr>lockTimer := 0\<rparr> else s1))
         else tryKicks s p newRotation kicks)"

definition rotatePiece :: "bool \<Rightarrow> Game \<Rightarrow> bool \<times> Game" where
  "rotatePiece clockwise s =
     (case currentPiece s of
        None \<Rightarrow> (False, s)
      | Some p \<Rightarrow>
          (let oldRotation = rotation p;
               newRotation = (if clockwise then getNextRotationCW oldRotation
                              else getNextRotationCCW oldRotation)
           in if isValidPosition (board s) (ptype p) (position p) newRotation then
                (let s1 = s\<lparr>currentPiece := Some (p\<lparr>rotation := newRotation\<rparr>),
                             lastWasRotation := True\<rparr>
                 in (True, if locked p then s1\<lparr>lockTimer := 0\<rparr> else s1))
              else tryKicks s p newRotation (getWallKickOffsets (ptype p) oldRotation newRotation)))"

text \<open>
  performHardDrop: the loop \<^verbatim>\<open>while (this.movePiece(0, 1)) dropDistance++\<close>. It ends
  because every shape has a filled cell, which a valid position keeps above the bottom
  bound.
\<close>

lemma isValidPosition_above_bottom:
  assumes "isValidPosition g t p r"
  shows "pos_y p < 22"
proof -
  have "validRows g p 0 (TETROMINO_SHAPES t r)"
    using assms by (simp add: isValidPosition_def getShape_def)
  then show ?thesis
    by (cases t; cases r) (simp_all add: Let_def split: if_splits)
qed

function hardDrop_loop :: "Game \<Rightarrow> int \<Rightarrow> Game \<times> int" where
  "hardDrop_loop s dropDistance =
     (case movePiece 0 1 s of
        (True, s') \<Rightarrow> hardDrop_loop s' (dropDistance + 1)
      | (False, s') \<Rightarrow> (s', dropDistance))"
  by pat_completeness auto
termination
proof (relation "measure (\<lambda>(s, d). case currentPiece s of None \<Rightarrow> 0
                                    | Some p \<Rightarrow> nat (23 - pos_y (position p)))")
  fix s s' :: Game and dropDistance :: int and b :: bool
  assume "(b, s') = movePiece 0 1 s" and "b = True"
  then have m: "movePiece 0 1 s = (True, s')"
    by simp
  then obtain p where p: "currentPiece s = Some p"
    by (cases "currentPiece s") (auto simp: movePiece_def)
  let ?np = "\<lparr>pos_x = pos_x (position p) + 0, pos_y = pos_y (position p) + 1\<rparr>"
  from m p have v: "isValidPosition (board s) (ptype p) ?np (rotation p)"
    and s': "currentPiece s' = Some (p\<lparr>position := ?np\<rparr>)"
    by (auto simp: movePiece_def Let_def split: if_splits)
  from isValidPosition_above_bottom [OF v] have "pos_y (position p) + 1 < 22"
    by simp
  then show "((s', dropDistance + 1), s, dropDistance)
      \<in> measure (\<lambda>(s, d). case currentPiece s of None \<Rightarrow> 0
                              | Some p \<Rightarrow> nat (23 - pos_y (position p)))"
    using p s' by simp
qed simp

declare hardDrop_loop.simps [simp del]

definition performHardDrop :: "Game \<Rightarrow> Game option" where
  "performHardDrop s =
     (if currentPiece s = None then Some s
      else
        (case hardDrop_loop s 0 of
           (s1, dropDistance) \<Rightarrow>
             lockCurrentPiece
               (s1\<lparr>stats := (stats s1)\<lparr>score := score (stats s1) + dropDistance * SCORE_HARD_DROP\<rparr>\<rparr>)))"

definition performHold :: "Game \<Rightarrow> Game option" where
  "performHold s =
     (case currentPiece s of
        None \<Rightarrow> Some s
      | Some p \<Rightarrow>
          if \<not> canHold s then Some s
          else
            (let heldType = ptype p;
                 r = (case holdPiece s of
                        Some h \<Rightarrow>
                          Some (s\<lparr>currentPiece :=
                                    Some \<lparr>ptype = h, position = getSpawnPosition h,
                                          rotation = SPAWN, locked = False,
                                          piece_lockTimer = 0\<rparr>\<rparr>)
                      | None \<Rightarrow> spawnNextPiece s)
             in case r of
                  None \<Rightarrow> None
                | Some s1 \<Rightarrow>
                    Some (s1\<lparr>holdPiece := Some heldType, canHold := False,
                              dropTimer := 0, lockTimer := 0\<rparr>)))"

text \<open>
  Times are JavaScript numbers in milliseconds; the model computes with exact rationals.
\<close>

definition getDropInterval :: "Game \<Rightarrow> rat" where
  "getDropInterval s =
     (let framesPerDrop = max 1 (48 - level (stats s) * 2)
      in (of_int framesPerDrop / 60) * 1000)"

text \<open>The remainder \<^verbatim>\<open>x % y\<close> on numbers: the quotient is truncated towards zero.\<close>

definition js_fmod :: "rat \<Rightarrow> rat \<Rightarrow> rat" where
  "js_fmod a b = a - b * of_int (if a / b \<ge> 0 then \<lfloor>a / b\<rfloor> else \<lceil>a / b\<rceil>)"

text \<open>update, first part: delayed auto shift.\<close>

definition das_step :: "Game \<Rightarrow> Game" where
  "das_step s =
     (if dasDirection s = Some das_left then snd (movePiece (-1) 0 s)
      else snd (movePiece 1 0 s))"

definition das_phase :: "rat \<Rightarrow> Game \<Rightarrow> Game" where
  "das_phase deltaTime s =
     (if dasDirection s \<noteq> None then
        (let s1 = s\<lparr>dasTimer := dasTimer s + deltaTime\<rparr> in
         if dasTimer s1 \<ge> DAS_DELAY then
           (let dasSteps = \<lfloor>(dasTimer s1 - DAS_DELAY) / DAS_PERIOD\<rfloor>;
                s2 = (das_step ^^ nat dasSteps) s1
            in s2\<lparr>dasTimer := DAS_DELAY + js_fmod (dasTimer s2 - DAS_DELAY) DAS_PERIOD\<rparr>)
         else s1)
      else s)"

text \<open>
  update, second part: gravity. The source computes the drop interval once before the
  loop; the loop does not change the level, so computing it at each test gives the same
  value. The branch for an absent piece is not reached from update, which returns
  earlier when there is no piece, and movePiece never removes the piece.
\<close>

lemma movePiece_frame:
  "stats (snd (movePiece dx dy s)) = stats s \<and> dropTimer (snd (movePiece dx dy s)) = dropTimer s"
  by (simp add: movePiece_def Let_def split: option.splits)

function gravity_loop :: "Game \<Rightarrow> Game" where
  "gravity_loop s =
     (if dropTimer s \<ge> getDropInterval s then
        (case movePiece 0 1 (s\<lparr>dropTimer := dropTimer s - getDropInterval s\<rparr>) of
           (True, s2) \<Rightarrow> gravity_loop s2
         | (False, s2) \<Rightarrow>
             gravity_loop
               (case currentPiece s2 of
                  None \<Rightarrow> s2
                | Some p \<Rightarrow>
                    if \<not> locked p then s2\<lparr>currentPiece := Some (p\<lparr>locked := True\<rparr>)\<rparr> else s2))
      else s)"
  by pat_completeness auto
termination
proof (relation "measure (\<lambda>s. nat \<lfloor>dropTimer s / getDropInterval s\<rfloor>)")
  have pos: "0 < getDropInterval s" for s
    by (simp add: getDropInterval_def Let_def)
  have step: "nat \<lfloor>(t - d) / d\<rfloor> < nat \<lfloor>t / d\<rfloor>" if "d \<le> t" "0 < d" for t d :: rat
  proof -
    have "(t - d) / d = t / d - 1"
      using that by (simp add: field_simps)
    moreover have "1 \<le> t / d"
      using that by (simp add: field_simps)
    then have "1 \<le> \<lfloor>t / d\<rfloor>"
      by (simp add: le_floor_iff)
    ultimately show ?thesis
      by simp
  qed
  {
    fix s s2 :: Game and b :: bool
    assume ge: "getDropInterval s \<le> dropTimer s"
      and mv: "(b, s2) = movePiece 0 1 (s\<lparr>dropTimer := dropTimer s - getDropInterval s\<rparr>)"
    from mv have s2: "s2 = snd (movePiece 0 1 (s\<lparr>dropTimer := dropTimer s - getDropInterval s\<rparr>))"
      by (metis snd_conv)
    have st: "stats s2 = stats s" and dt: "dropTimer s2 = dropTimer s - getDropInterval s"
      unfolding s2 by (simp_all add: movePiece_frame)
    have di: "getDropInterval s2 = getDropInterval s"
      by (simp add: getDropInterval_def st)
    have less: "nat \<lfloor>dropTimer s2 / getDropInterval s2\<rfloor> < nat \<lfloor>dropTimer s / getDropInterval s\<rfloor>"
      unfolding di dt by (rule step [OF ge pos])
    let ?s3 = "case currentPiece s2 of None \<Rightarrow> s2
               | Some p \<Rightarrow> if \<not> locked p then s2\<lparr>currentPiece := Some (p\<lparr>locked := True\<rparr>)\<rparr> else s2"
    have "dropTimer ?s3 = dropTimer s2" "getDropInterval ?s3 = getDropInterval s2"
      by (simp_all add: getDropInterval_def split: option.splits)
    with less have "nat \<lfloor>dropTimer ?s3 / getDropInterval ?s3\<rfloor> < nat \<lfloor>dropTimer s / getDropInterval s\<rfloor>"
      by simp
    note less this
  }
  note main = this
  show "\<And>s x y. getDropInterval s \<le> dropTimer s \<Longrightarrow>
       (x, y) = movePiece 0 1 (s\<lparr>dropTimer := dropTimer s - getDropInterval s\<rparr>) \<Longrightarrow>
       x = True \<Longrightarrow>
       (y, s) \<in> measure (\<lambda>s. nat \<lfloor>dropTimer s / getDropInterval s\<rfloor>)"
    using main(1) by simp
  show "\<And>s x y. getDropInterval s \<le> dropTimer s \<Longrightarrow>
       (x, y) = movePiece 0 1 (s\<lparr>dropTimer := dropTimer s - getDropInterval s\<rparr>) \<Longrightarrow>
       x = False \<Longrightarrow>
       (case currentPiece y of None \<Rightarrow> y
        | Some p \<Rightarrow> if \<not> locked p then y\<lparr>currentPiece := Some (p\<lparr>locked := True\<rparr>)\<rparr> else y, s)
       \<in> measure (\<lambda>s. nat \<lfloor>dropTimer s / getDropInterval s\<rfloor>)"
    using main(2) by simp
qed simp

declare gravity_loop.simps [simp del]

definition gravity_phase :: "rat \<Rightarrow> Game \<Rightarrow> Game" where
  "gravity_phase deltaTime s = gravity_loop (s\<lparr>dropTimer := dropTimer s + deltaTime\<rparr>)"

text \<open>update, third part: lock delay.\<close>

definition lock_phase :: "rat \<Rightarrow> Game \<Rightarrow> Game option" where
  "lock_phase deltaTime s =
     (case currentPiece s of
        None \<Rightarrow> Some s
      | Some p \<Rightarrow>
          if locked p then
            (let s1 = s\<lparr>lockTimer := lockTimer s + deltaTime\<rparr>
             in if lockTimer s1 \<ge> LOCK_DELAY then lockCurrentPiece s1 else Some s1)
          else Some (s\<lparr>lockTimer := 0\<rparr>))"

definition update :: "rat \<Rightarrow> Game \<Rightarrow> Game option" where
  "update deltaTime s =
     (if state s \<noteq> PLAYING \<or> currentPiece s = None then Some s
      else lock_phase deltaTime (gravity_phase deltaTime (das_phase deltaTime s)))"

definition handleInput :: "InputAction \<Rightarrow> bool \<Rightarrow> Game \<Rightarrow> Game option" where
  "handleInput action pressed s =
     (if state s \<noteq> PLAYING then
        (if action = PAUSE \<and> pressed \<and> state s = PAUSED then Some (s\<lparr>state := PLAYING\<rparr>)
         else Some s)
      else if action = PAUSE \<and> pressed then Some (s\<lparr>state := PAUSED\<rparr>)
      else if currentPiece s = None then Some s
      else
        (case action of
           MOVE_LEFT \<Rightarrow>
             (if pressed then
                Some ((snd (movePiece (-1) 0 s))\<lparr>dasDirection := Some das_left, dasTimer := 0\<rparr>)
              else if dasDirection s = Some das_left then
                Some (s\<lparr>dasDirection := None, dasTimer := 0\<rparr>)
              else Some s)
         | MOVE_RIGHT \<Rightarrow>
             (if pressed then
                Some ((snd (movePiece 1 0 s))\<lparr>dasDirection := Some das_right, dasTimer := 0\<rparr>)
              else if dasDirection s = Some das_right then
                Some (s\<lparr>dasDirection := None, dasTimer := 0\<rparr>)
              else Some s)
         | SOFT_DROP \<Rightarrow>
             (if pressed then
                (case movePiece 0 1 s of
                   (True, s1) \<Rightarrow>
                     Some (s1\<lparr>stats := (stats s1)\<lparr>score := score (stats s1) + SCORE_SOFT_DROP\<rparr>\<rparr>)
                 | (False, s1) \<Rightarrow> Some s1)
              else Some s)
         | HARD_DROP \<Rightarrow> (if pressed then performHardDrop s else Some s)
         | ROTATE_CW \<Rightarrow> (if pressed then Some (snd (rotatePiece True s)) else Some s)
         | ROTATE_CCW \<Rightarrow> (if pressed then Some (snd (rotatePiece False s)) else Some s)
         | HOLD \<Rightarrow> (if pressed \<and> canHold s then performHold s else Some s)
         | PAUSE \<Rightarrow> Some s))"

text \<open>
  reset and start; \<open>now\<close> is the value of \<^verbatim>\<open>Date.now()\<close> that seeds the bag. The
  constructor builds the same fields with an empty event log.
\<close>

definition reset :: "int \<Rightarrow> Game \<Rightarrow> Game" where
  "reset now s =
     s\<lparr>board := createEmptyGrid,
       bag := bag_reset now,
       state := IDLE,
       stats := \<lparr>score = 0, level = 0, lines = 0, combo = 0, backToBack = False\<rparr>,
       currentPiece := None,
       holdPiece := None,
       canHold := True,
       dropTimer := 0, lockTimer := 0, dasTimer := 0,
       dasDirection := None\<rparr>"

definition start :: "int \<Rightarrow> Game \<Rightarrow> Game option" where
  "start now s = spawnNextPiece ((reset now s)\<lparr>state := PLAYING\<rparr>)"

definition Game_new :: "int \<Rightarrow> Game" where
  "Game_new now =
     \<lparr>board = createEmptyGrid,
      bag = BagRandomizer_new now,
      state = IDLE,
      stats = \<lparr>score = 0, level = 0, lines = 0, combo = 0, backToBack = False\<rparr>,
      currentPiece = None,
      holdPiece = None,
      canHold = True,
      dropTimer = 0, lockTimer = 0, dasTimer = 0,
      dasDirection = None,
      lastWasRotation = False,
      emitted = []\<rparr>"

section \<open>Properties of the board\<close>

subsection \<open>isValidPosition\<close>

text \<open>
  The three grounds on which the specification rejects a filled cell of the shape that
  lies at shape row \<open>row\<close> and shape column \<open>col\<close>: its board column is outside
  \<open>[0, width)\<close>, its board row is at or beyond the bottom bound, or it lands on an
  occupied cell within the grid. A negative board row is not among them.
\<close>

definition cellRejected :: "Grid \<Rightarrow> Position \<Rightarrow> int \<Rightarrow> int \<Rightarrow> bool" where
  "cellRejected g p row col =
     (let boardX = pos_x p + col; boardY = pos_y p + row in
      boardX < 0 \<or> boardX \<ge> int BOARD_WIDTH \<or> boardY \<ge> int TOTAL_HEIGHT \<or>
      (0 \<le> boardY \<and> boardY < int TOTAL_HEIGHT \<and> g ! nat boardY ! nat boardX \<noteq> None))"

lemma all_less_Cons:
  "(\<forall>k < length (v # vs). P k) = (P 0 \<and> (\<forall>k < length vs. P (Suc k)))"
  by (auto simp: less_Suc_eq_0_disj)

lemma validCols_iff:
  "validCols g p row col vs =
     (\<forall>k < length vs. vs ! k \<noteq> 0 \<longrightarrow> \<not> cellRejected g p row (col + int k))"
proof (induction vs arbitrary: col)
  case Nil
  show ?case by simp
next
  case (Cons v vs)
  show ?case
    unfolding all_less_Cons
    by (simp add: Cons.IH Let_def cellRejected_def add.assoc)
qed

lemma validRows_iff:
  "validRows g p row rs =
     (\<forall>i < length rs. \<forall>k < length (rs ! i). rs ! i ! k \<noteq> 0 \<longrightarrow>
        \<not> cellRejected g p (row + int i) (int k))"
proof (induction rs arbitrary: row)
  case Nil
  show ?case by simp
next
  case (Cons r rs)
  show ?case
    unfolding all_less_Cons
    by (simp add: Cons.IH validCols_iff add.assoc)
qed

text \<open>
  C7. isValidPosition returns false exactly when some filled cell of the resolved shape
  is rejected on one of the three grounds above (column outside the board, row at or
  beyond the bottom bound, occupied cell within the grid); and a position all of whose
  filled cells are in columns of the board and in rows above the grid top is valid,
  whatever the grid holds.
\<close>

theorem isValidPosition_iff_rejected:
  "(\<not> isValidPosition g t p r) =
     (\<exists>row < length (getShape t r). \<exists>col < length (getShape t r ! row).
        getShape t r ! row ! col \<noteq> 0 \<and> cellRejected g p (int row) (int col))
   \<and> ((\<forall>row < length (getShape t r). \<forall>col < length (getShape t r ! row).
          getShape t r ! row ! col \<noteq> 0 \<longrightarrow>
            0 \<le> pos_x p + int col \<and> pos_x p + int col < int BOARD_WIDTH \<and> pos_y p + int row < 0)
        \<longrightarrow> isValidPosition g t p r)"
proof -
  have iff: "isValidPosition g t p r =
      (\<forall>row < length (getShape t r). \<forall>col < length (getShape t r ! row).
         getShape t r ! row ! col \<noteq> 0 \<longrightarrow> \<not> cellRejected g p (int row) (int col))"
    by (simp add: isValidPosition_def validRows_iff)
  have neg: "\<not> cellRejected g p row col"
    if "0 \<le> pos_x p + col" "pos_x p + col < int BOARD_WIDTH" "pos_y p + row < 0" for row col
    using that by (simp add: cellRejected_def Let_def)
  show ?thesis
    unfolding iff using neg by blast
qed

theorem isValidPosition_iff_rejected_witness:
  "\<not> isValidPosition createEmptyGrid I_piece \<lparr>pos_x = -1, pos_y = 10\<rparr> SPAWN
   \<and> getShape I_piece SPAWN ! 1 ! 0 \<noteq> 0
   \<and> cellRejected createEmptyGrid \<lparr>pos_x = -1, pos_y = 10\<rparr> 1 0
   \<and> isValidPosition createEmptyGrid I_piece \<lparr>pos_x = 5, pos_y = -2\<rparr> SPAWN"
proof -
  have rej: "\<exists>row < length (getShape I_piece SPAWN). \<exists>col < length (getShape I_piece SPAWN ! row).
        getShape I_piece SPAWN ! row ! col \<noteq> 0
        \<and> cellRejected createEmptyGrid \<lparr>pos_x = -1, pos_y = 10\<rparr> (int row) (int col)"
    by (rule exI [of _ 1], simp add: getShape_def, rule exI [of _ 0])
       (simp add: cellRejected_def)
  have above: "\<forall>row < length (getShape I_piece SPAWN). \<forall>col < length (getShape I_piece SPAWN ! row).
          getShape I_piece SPAWN ! row ! col \<noteq> 0 \<longrightarrow>
            0 \<le> 5 + int col \<and> 5 + int col < int BOARD_WIDTH \<and> -2 + int row < 0"
    by (simp add: getShape_def All_less_Suc)
  from rej above
    isValidPosition_iff_rejected [of createEmptyGrid I_piece "\<lparr>pos_x = -1, pos_y = 10\<rparr>" SPAWN]
    isValidPosition_iff_rejected [of createEmptyGrid I_piece "\<lparr>pos_x = 5, pos_y = -2\<rparr>" SPAWN]
  show ?thesis
    by (simp add: getShape_def cellRejected_def)
qed

subsection \<open>clearLines\<close>

text \<open>
  What the scan of clearLines does to a grid of 22 rows. \<open>isFullRow\<close> is the test of
  isLineFull on the row itself; \<open>detectedIndices\<close> gives, for each full row from the top
  down, its index plus the number of full rows below it.
\<close>

definition isFullRow :: "TetrominoType option list \<Rightarrow> bool" where
  "isFullRow r = (length r = BOARD_WIDTH \<and> list_all (\<lambda>cell. cell \<noteq> None) r)"

lemma isLineFull_nth:
  "0 \<le> row \<Longrightarrow> nat row < length g \<Longrightarrow> length g \<le> TOTAL_HEIGHT \<Longrightarrow>
     isLineFull g row = isFullRow (g ! nat row)"
  by (auto simp: isLineFull_def isFullRow_def)

lemma not_isFullRow_empty: "\<not> isFullRow (replicate BOARD_WIDTH None)"
  by (simp add: isFullRow_def list_all_iff)

lemma clearLines_loop_grid:
  "row + 1 \<le> int (length g) \<Longrightarrow> length g \<le> TOTAL_HEIGHT \<Longrightarrow> -1 \<le> row \<Longrightarrow>
   fst (clearLines_loop g row cleared) =
     replicate (length (filter isFullRow (take (nat (row + 1)) g))) (replicate BOARD_WIDTH None)
     @ filter (\<lambda>r. \<not> isFullRow r) (take (nat (row + 1)) g) @ drop (nat (row + 1)) g"
proof (induction g row cleared rule: clearLines_loop.induct)
  case (1 g row cleared)
  show ?case
  proof (cases "row \<ge> 0")
    case False
    with 1 have "row = -1" by simp
    then show ?thesis by (simp add: clearLines_loop.simps)
  next
    case True
    then have r: "nat row < length g" "nat (row + 1) = Suc (nat row)"
      using "1.prems" by auto
    have tk: "take (Suc (nat row)) g = take (nat row) g @ [g ! nat row]"
      using r by (simp add: take_Suc_conv_app_nth)
    show ?thesis
    proof (cases "isLineFull g row")
      case full: True
      then have f: "isFullRow (g ! nat row)"
        using isLineFull_nth [of row g] True r "1.prems" by simp
      let ?g2 = "removeRow g row"
      have len: "length ?g2 = length g"
        using r by (simp add: removeRow_def)
      have tk2: "take (Suc (nat row)) ?g2 = replicate BOARD_WIDTH None # take (nat row) g"
        using r by (simp add: removeRow_def)
      have dr2: "drop (Suc (nat row)) ?g2 = drop (Suc (nat row)) g"
        using r by (simp add: removeRow_def)
      have "fst (clearLines_loop g row cleared) = fst (clearLines_loop ?g2 row (cleared @ [row]))"
        using True full by (subst clearLines_loop.simps) simp
      also have "\<dots> = replicate (length (filter isFullRow (take (nat (row + 1)) ?g2))) (replicate BOARD_WIDTH None)
          @ filter (\<lambda>r. \<not> isFullRow r) (take (nat (row + 1)) ?g2) @ drop (nat (row + 1)) ?g2"
        using "1.IH"(1) [OF True full] "1.prems" len by simp
      also have "\<dots> = replicate (length (filter isFullRow (take (nat (row + 1)) g))) (replicate BOARD_WIDTH None)
          @ filter (\<lambda>r. \<not> isFullRow r) (take (nat (row + 1)) g) @ drop (nat (row + 1)) g"
        unfolding r(2) tk2 dr2 tk using f not_isFullRow_empty
        by (simp add: replicate_app_Cons_same)
      finally show ?thesis .
    next
      case nf: False
      then have f: "\<not> isFullRow (g ! nat row)"
        using isLineFull_nth [of row g] True r "1.prems" by simp
      have "fst (clearLines_loop g row cleared) = fst (clearLines_loop g (row - 1) cleared)"
        using True nf by (subst clearLines_loop.simps) simp
      also have "\<dots> = replicate (length (filter isFullRow (take (nat (row - 1 + 1)) g))) (replicate BOARD_WIDTH None)
          @ filter (\<lambda>r. \<not> isFullRow r) (take (nat (row - 1 + 1)) g) @ drop (nat (row - 1 + 1)) g"
        using "1.IH"(2) [OF True nf] "1.prems" True by simp
      also have "\<dots> = replicate (length (filter isFullRow (take (nat (row + 1)) g))) (replicate BOARD_WIDTH None)
          @ filter (\<lambda>r. \<not> isFullRow r) (take (nat (row + 1)) g) @ drop (nat (row + 1)) g"
        unfolding r(2) tk using f r by (simp add: Cons_nth_drop_Suc)
      finally show ?thesis .
    qed
  qed
qed

lemma clearLines_grid:
  assumes "length g = TOTAL_HEIGHT"
  shows "fst (clearLines g) =
     replicate (length (filter isFullRow g)) (replicate BOARD_WIDTH None)
     @ filter (\<lambda>r. \<not> isFullRow r) g"
  using clearLines_loop_grid [of 21 g "[]"] assms
  by (simp add: clearLines_def case_prod_beta)

fun detectedIndices :: "nat \<Rightarrow> TetrominoType option list list \<Rightarrow> int list" where
  "detectedIndices i [] = []"
| "detectedIndices i (r # rs) =
     (if isFullRow r then [int i + int (length (filter isFullRow rs))] else [])
     @ detectedIndices (Suc i) rs"

lemma detectedIndices_Suc: "detectedIndices (Suc i) rs = map (\<lambda>k. k + 1) (detectedIndices i rs)"
  by (induction rs arbitrary: i) auto

lemma detectedIndices_snoc:
  "detectedIndices i (rs @ [r]) =
     (if isFullRow r then map (\<lambda>k. k + 1) (detectedIndices i rs) @ [int i + int (length rs)]
      else detectedIndices i rs)"
  by (induction rs arbitrary: i) auto

lemma clearLines_loop_indices:
  "row + 1 \<le> int (length g) \<Longrightarrow> length g \<le> TOTAL_HEIGHT \<Longrightarrow> -1 \<le> row \<Longrightarrow>
   snd (clearLines_loop g row cleared) = cleared @ rev (detectedIndices 0 (take (nat (row + 1)) g))"
proof (induction g row cleared rule: clearLines_loop.induct)
  case (1 g row cleared)
  show ?case
  proof (cases "row \<ge> 0")
    case False
    with 1 have "row = -1" by simp
    then show ?thesis by (simp add: clearLines_loop.simps)
  next
    case True
    then have r: "nat row < length g" "nat (row + 1) = Suc (nat row)"
      using "1.prems" by auto
    have tk: "take (Suc (nat row)) g = take (nat row) g @ [g ! nat row]"
      using r by (simp add: take_Suc_conv_app_nth)
    show ?thesis
    proof (cases "isLineFull g row")
      case full: True
      then have f: "isFullRow (g ! nat row)"
        using isLineFull_nth [of row g] True r "1.prems" by simp
      let ?g2 = "removeRow g row"
      have len: "length ?g2 = length g"
        using r by (simp add: removeRow_def)
      have tk2: "take (Suc (nat row)) ?g2 = replicate BOARD_WIDTH None # take (nat row) g"
        using r by (simp add: removeRow_def)
      have "snd (clearLines_loop g row cleared) = snd (clearLines_loop ?g2 row (cleared @ [row]))"
        using True full by (subst clearLines_loop.simps) simp
      also have "\<dots> = (cleared @ [row]) @ rev (detectedIndices 0 (take (nat (row + 1)) ?g2))"
        using "1.IH"(1) [OF True full] "1.prems" len by simp
      also have "\<dots> = cleared @ rev (detectedIndices 0 (take (nat (row + 1)) g))"
        unfolding r(2) tk2 tk using f not_isFullRow_empty True r
        by (simp add: detectedIndices_snoc detectedIndices_Suc)
      finally show ?thesis .
    next
      case nf: False
      then have f: "\<not> isFullRow (g ! nat row)"
        using isLineFull_nth [of row g] True r "1.prems" by simp
      have "snd (clearLines_loop g row cleared) = snd (clearLines_loop g (row - 1) cleared)"
        using True nf by (subst clearLines_loop.simps) simp
      also have "\<dots> = cleared @ rev (detectedIndices 0 (take (nat (row - 1 + 1)) g))"
        using "1.IH"(2) [OF True nf] "1.prems" True by simp
      also have "\<dots> = cleared @ rev (detectedIndices 0 (take (nat (row + 1)) g))"
        unfolding r(2) tk using f by (simp add: detectedIndices_snoc)
      finally show ?thesis .
    qed
  qed
qed

lemma clearLines_indices:
  assumes "length g = TOTAL_HEIGHT"
  shows "snd (clearLines g) = detectedIndices 0 g"
  using clearLines_loop_indices [of 21 g "[]"] assms
  by (simp add: clearLines_def case_prod_beta)

definition grid_rows_19_21 :: Grid where
  "grid_rows_19_21 =
     replicate 19 (replicate BOARD_WIDTH None)
     @ [replicate BOARD_WIDTH (Some T_piece), replicate BOARD_WIDTH None,
        replicate BOARD_WIDTH (Some L_piece)]"

lemma isFullRow_replicate [simp]:
  "isFullRow (replicate BOARD_WIDTH c) = (c \<noteq> None)"
  by (auto simp: isFullRow_def list_all_iff)

lemma clearLines_loop_full:
  "0 \<le> row \<Longrightarrow> isLineFull g row \<Longrightarrow>
     clearLines_loop g row cleared = clearLines_loop (removeRow g row) row (cleared @ [row])"
  by (subst clearLines_loop.simps) simp

lemma clearLines_loop_skip:
  "0 \<le> row \<Longrightarrow> \<not> isLineFull g row \<Longrightarrow>
     clearLines_loop g row cleared = clearLines_loop g (row - 1) cleared"
  by (subst clearLines_loop.simps) simp

lemma clearLines_loop_done:
  "row < 0 \<Longrightarrow> clearLines_loop g row cleared = (g, cleared)"
  by (subst clearLines_loop.simps) simp

lemmas clearLines_eval =
  clearLines_def clearLines_loop_full clearLines_loop_skip clearLines_loop_done
  isLineFull_def removeRow_def nth_append nth_Cons' list_all_iff

text \<open>
  C1. The grid of the repository's test "should clear non-consecutive lines": rows 19 and
  21 are full. clearLines reports the rows as 20 and 21: row 19 is found at index 20,
  after the removal of row 21 has shifted it down by one. The claim (and that test, which
  expects the list to contain 19) asks for the original indices 19 and 21. In general
  the scan reports, for each full row, its original index plus the number of full rows
  below it (\<open>clearLines_indices\<close>), while the grid is changed as the claim says
  (\<open>clearLines_grid\<close>).
\<close>

theorem clearLines_rows_19_21:
  "snd (clearLines grid_rows_19_21) = [20, 21]"
  by (simp add: grid_rows_19_21_def clearLines_eval)

subsection \<open>getBoardStats\<close>

text \<open>
  The cells of one column from the top row down, and what getBoardStats computes from
  them: the height of a column is the number of rows from its first occupied cell down
  to the bottom of the grid (0 for an empty column), its holes are the empty cells below
  its first occupied cell.
\<close>

definition column :: "Grid \<Rightarrow> nat \<Rightarrow> TetrominoType option list" where
  "column g col = map (\<lambda>row. g ! row ! col) [0..<TOTAL_HEIGHT]"

definition colHeight :: "Grid \<Rightarrow> nat \<Rightarrow> int" where
  "colHeight g col = int (length (dropWhile (\<lambda>c. c = None) (column g col)))"

definition colHoles :: "Grid \<Rightarrow> nat \<Rightarrow> int" where
  "colHoles g col = int (length (filter (\<lambda>c. c = None) (dropWhile (\<lambda>c. c = None) (column g col))))"

text \<open>
  The height as the specification words it: the distance from the grid top to the first
  occupied cell, 0 for an empty column.
\<close>

definition spec_colHeight :: "Grid \<Rightarrow> nat \<Rightarrow> int" where
  "spec_colHeight g col =
     (if list_all (\<lambda>c. c = None) (column g col) then 0
      else int (length (takeWhile (\<lambda>c. c = None) (column g col))))"

lemma scanRows_found:
  "scanRows g col rows (hs, holes, True) =
     (hs, holes + int (length (filter (\<lambda>r. g ! r ! col = None) rows)), True)"
  by (induction rows arbitrary: holes) auto

lemma scanRows_notfound:
  "scanRows g col rows (hs, holes, False) =
     (case dropWhile (\<lambda>r. g ! r ! col = None) rows of
        [] \<Rightarrow> (hs, holes, False)
      | r # rest \<Rightarrow>
          (hs[col := int TOTAL_HEIGHT - int r],
           holes + int (length (filter (\<lambda>r. g ! r ! col = None) rest)), True))"
  by (induction rows) (auto simp: scanRows_found)

lemma dropWhile_upt:
  "dropWhile P [0..<n] = r # rest \<Longrightarrow> r # rest = [r..<n]"
proof -
  assume a: "dropWhile P [0..<n] = r # rest"
  have "dropWhile P [0..<n] = drop (length (takeWhile P [0..<n])) [0..<n]"
    by (rule dropWhile_eq_drop)
  then have d: "r # rest = [length (takeWhile P [0..<n])..<n]"
    using a by (simp add: drop_upt)
  then have "r = length (takeWhile P [0..<n])"
    by (metis list.sel(1) upt_eq_Cons_conv)
  with d show ?thesis by simp
qed

lemma scanRows_column:
  "scanRows g col [0..<TOTAL_HEIGHT] (hs, holes, False) =
     (if colHeight g col = 0 then hs else hs[col := colHeight g col],
      holes + colHoles g col,
      colHeight g col \<noteq> 0)"
proof (cases "dropWhile (\<lambda>r. g ! r ! col = None) [0..<TOTAL_HEIGHT]")
  case Nil
  then have dw0: "dropWhile (\<lambda>c. c = None) (column g col) = []"
    by (simp add: column_def dropWhile_map comp_def)
  show ?thesis
    unfolding dw0 scanRows_notfound Nil colHeight_def colHoles_def by simp
next
  case (Cons r rest)
  from dropWhile_upt [OF Cons] have rr: "r # rest = [r..<TOTAL_HEIGHT]" .
  then have lt: "r < TOTAL_HEIGHT"
    by (metis list.distinct(1) upt_rec)
  have dw: "dropWhile (\<lambda>c. c = None) (column g col) = map (\<lambda>row. g ! row ! col) (r # rest)"
    using Cons by (simp add: column_def dropWhile_map comp_def)
  have occ: "g ! r ! col \<noteq> None"
    using Cons by (metis (mono_tags, lifting) hd_dropWhile list.distinct(1) list.sel(1))
  have len: "int (length (r # rest)) = int TOTAL_HEIGHT - int r"
    unfolding rr using lt by simp
  have h: "colHeight g col = int TOTAL_HEIGHT - int r"
    unfolding colHeight_def dw using len by simp
  have ho: "colHoles g col = int (length (filter (\<lambda>r. g ! r ! col = None) rest))"
    unfolding colHoles_def dw using occ by (simp add: filter_map comp_def)
  show ?thesis
    using Cons lt by (simp add: scanRows_notfound h ho)
qed

lemma scanCols_char:
  "distinct cols \<Longrightarrow>
   scanCols g cols (hs, holes) =
     (map (\<lambda>i. if i \<in> set cols \<and> colHeight g i \<noteq> 0 then colHeight g i else hs ! i) [0..<length hs],
      holes + sum_list (map (colHoles g) cols))"
proof (induction cols arbitrary: hs holes)
  case Nil
  show ?case by (simp add: map_nth)
next
  case (Cons c cols)
  let ?hs' = "if colHeight g c = 0 then hs else hs[c := colHeight g c]"
  have "scanCols g (c # cols) (hs, holes) = scanCols g cols (?hs', holes + colHoles g c)"
    by (simp add: scanRows_column)
  also have "\<dots> = (map (\<lambda>i. if i \<in> set cols \<and> colHeight g i \<noteq> 0 then colHeight g i else ?hs' ! i) [0..<length ?hs'],
      holes + colHoles g c + sum_list (map (colHoles g) cols))"
    using Cons.IH [of ?hs' "holes + colHoles g c"] Cons.prems by simp
  also have "\<dots> = (map (\<lambda>i. if i \<in> set (c # cols) \<and> colHeight g i \<noteq> 0 then colHeight g i else hs ! i) [0..<length hs],
      holes + sum_list (map (colHoles g) (c # cols)))"
  proof -
    have "(if i \<in> set cols \<and> colHeight g i \<noteq> 0 then colHeight g i else ?hs' ! i) =
          (if i \<in> set (c # cols) \<and> colHeight g i \<noteq> 0 then colHeight g i else hs ! i)"
      if "i < length hs" for i
      using that by (cases "i = c") auto
    moreover have "length ?hs' = length hs"
      by simp
    ultimately have "map (\<lambda>i. if i \<in> set cols \<and> colHeight g i \<noteq> 0 then colHeight g i else ?hs' ! i)
           [0..<length ?hs'] =
        map (\<lambda>i. if i \<in> set (c # cols) \<and> colHeight g i \<noteq> 0 then colHeight g i else hs ! i)
           [0..<length hs]"
      by (intro map_cong) simp_all
    then show ?thesis
      by (simp only: list.map sum_list.Cons add.assoc)
  qed
  finally show ?case .
qed

lemma bumpLoop_sum:
  "bumpLoop hs idx b = b + sum_list (map (\<lambda>i. \<bar>hs ! i - hs ! (i + 1)\<bar>) idx)"
  by (induction idx arbitrary: b) auto

lemma getBoardStats_char:
  "getBoardStats g =
     \<lparr>stat_height = Max (set (map (colHeight g) [0..<BOARD_WIDTH])),
      stat_holes = sum_list (map (colHoles g) [0..<BOARD_WIDTH]),
      stat_bumpiness =
        sum_list (map (\<lambda>i. \<bar>colHeight g i - colHeight g (i + 1)\<bar>) [0..<BOARD_WIDTH - 1])\<rparr>"
proof -
  have hs: "map (\<lambda>i. if i \<in> set [0..<BOARD_WIDTH] \<and> colHeight g i \<noteq> 0 then colHeight g i
                      else replicate BOARD_WIDTH 0 ! i) [0..<length (replicate BOARD_WIDTH (0::int))]
            = map (colHeight g) [0..<BOARD_WIDTH]"
    by (rule map_cong) (auto simp del: replicate.simps)
  have sc: "scanCols g [0..<BOARD_WIDTH] (replicate BOARD_WIDTH 0, 0) =
      (map (colHeight g) [0..<BOARD_WIDTH], sum_list (map (colHoles g) [0..<BOARD_WIDTH]))"
    using scanCols_char [of "[0..<BOARD_WIDTH]" g "replicate BOARD_WIDTH 0" 0]
    unfolding hs by simp
  have nth: "map (colHeight g) [0..<BOARD_WIDTH] ! i = colHeight g i" if "i < BOARD_WIDTH" for i
    using that by (simp del: upt_Suc)
  have bump: "map (\<lambda>i. \<bar>map (colHeight g) [0..<BOARD_WIDTH] ! i - map (colHeight g) [0..<BOARD_WIDTH] ! (i + 1)\<bar>) [0..<BOARD_WIDTH - 1]
      = map (\<lambda>i. \<bar>colHeight g i - colHeight g (i + 1)\<bar>) [0..<BOARD_WIDTH - 1]"
    by (rule map_cong) (auto simp: nth simp del: upt_Suc)
  show ?thesis
    unfolding getBoardStats_def sc
    by (simp only: prod.case bumpLoop_sum bump) simp
qed


definition grid_one_cell :: Grid where
  "grid_one_cell = createEmptyGrid[21 := (createEmptyGrid ! 21)[0 := Some I_piece]]"

lemma grid_one_cell_nth:
  "i < TOTAL_HEIGHT \<Longrightarrow> c < BOARD_WIDTH \<Longrightarrow>
     grid_one_cell ! i ! c = (if i = 21 \<and> c = 0 then Some I_piece else None)"
  by (simp add: grid_one_cell_def createEmptyGrid_def nth_list_update)

lemma dropWhile_replicate_None:
  "dropWhile (\<lambda>c. c = None) (replicate n None @ ys) = dropWhile (\<lambda>c. c = None) ys"
  by (induction n) auto

lemma takeWhile_replicate_None:
  "takeWhile (\<lambda>c. c = None) (replicate n None @ ys) = replicate n None @ takeWhile (\<lambda>c. c = None) ys"
  by (induction n) auto

lemma column_grid_one_cell_0:
  "column grid_one_cell 0 = replicate 21 None @ [Some I_piece]"
  by (rule nth_equalityI) (auto simp: column_def grid_one_cell_nth nth_append simp del: upt_Suc)

lemma column_grid_one_cell_other:
  "0 < c \<Longrightarrow> c < BOARD_WIDTH \<Longrightarrow> column grid_one_cell c = replicate 22 None"
  by (rule nth_equalityI) (auto simp: column_def grid_one_cell_nth simp del: upt_Suc)

text \<open>
  C9 as stated fails for the height: with a single block in the bottom row of column 0,
  getBoardStats reports the height 1, while the distance from the grid top to that
  block is 21.
\<close>

theorem getBoardStats_height_counterexample:
  "stat_height (getBoardStats grid_one_cell) = 1
   \<and> Max (set (map (spec_colHeight grid_one_cell) [0..<BOARD_WIDTH])) = 21"
proof -
  have h0: "colHeight grid_one_cell 0 = 1" and s0: "spec_colHeight grid_one_cell 0 = 21"
    by (simp_all add: colHeight_def spec_colHeight_def column_grid_one_cell_0
        dropWhile_replicate_None takeWhile_replicate_None)
  have hc: "colHeight grid_one_cell c = 0" and sc: "spec_colHeight grid_one_cell c = 0"
    if "0 < c" "c < BOARD_WIDTH" for c
    using that by (simp_all add: colHeight_def spec_colHeight_def column_grid_one_cell_other list_all_iff)
  have "Max (set (map (colHeight grid_one_cell) [0..<BOARD_WIDTH])) = 1"
  proof (rule Max_eqI)
    fix v assume "v \<in> set (map (colHeight grid_one_cell) [0..<BOARD_WIDTH])"
    then obtain c where "c < BOARD_WIDTH" "v = colHeight grid_one_cell c"
      by auto
    then show "v \<le> 1"
      using h0 hc [of c] by (cases "c = 0") auto
  next
    show "1 \<in> set (map (colHeight grid_one_cell) [0..<BOARD_WIDTH])"
      using h0 by (auto simp: image_iff intro!: bexI [of _ 0])
  qed simp
  moreover have "Max (set (map (spec_colHeight grid_one_cell) [0..<BOARD_WIDTH])) = 21"
  proof (rule Max_eqI)
    fix v assume "v \<in> set (map (spec_colHeight grid_one_cell) [0..<BOARD_WIDTH])"
    then obtain c where "c < BOARD_WIDTH" "v = spec_colHeight grid_one_cell c"
      by auto
    then show "v \<le> 21"
      using s0 sc [of c] by (cases "c = 0") auto
  next
    show "21 \<in> set (map (spec_colHeight grid_one_cell) [0..<BOARD_WIDTH])"
      using s0 by (auto simp: image_iff intro!: bexI [of _ 0])
  qed simp
  ultimately show ?thesis
    by (simp add: getBoardStats_char)
qed

text \<open>
  C9, amended: per column, the height is the number of rows from the first occupied cell
  down to the grid bottom (the total height minus the row index of that cell; 0 if the
  column is empty); the holes are all empty cells below the first occupied cell of their
  column, counted per cell; the bumpiness is the sum over adjacent column pairs of the
  absolute height difference; the aggregate height is the maximum of the column heights.
\<close>

theorem getBoardStats_amended:
  "getBoardStats g =
     \<lparr>stat_height = Max (set (map (colHeight g) [0..<BOARD_WIDTH])),
      stat_holes = sum_list (map (colHoles g) [0..<BOARD_WIDTH]),
      stat_bumpiness =
        sum_list (map (\<lambda>i. \<bar>colHeight g i - colHeight g (i + 1)\<bar>) [0..<BOARD_WIDTH - 1])\<rparr>"
  by (rule getBoardStats_char)

section \<open>Properties of the randomizer\<close>

text \<open>The randomizer after \<open>n\<close> calls of next.\<close>

fun bag_after :: "nat \<Rightarrow> BagRandomizer \<Rightarrow> BagRandomizer" where
  "bag_after 0 b = b"
| "bag_after (Suc n) b = bag_after n (snd (bag_next b))"

text \<open>
  The states the controller's randomizer is in when seeded with a non-negative number:
  the seed is non-negative, the next bag holds the seven types, the current bag holds no
  undefined element.
\<close>

definition bag_ok :: "BagRandomizer \<Rightarrow> bool" where
  "bag_ok b = (0 \<le> seed b \<and> mset (nextBag b) = mset (map Some all_types)
               \<and> None \<notin> set (currentBag b))"

lemma floor_random:
  "\<lfloor>(of_int s / 2147483648 :: rat) * of_int k\<rfloor> = (s * k) div 2147483648"
proof -
  have "(of_int s / 2147483648 :: rat) * of_int k = of_int (s * k) / of_int 2147483648"
    by simp
  then show ?thesis
    by (simp only: floor_divide_of_int_eq)
qed

lemma shuffle_step:
  "shuffle_loop (Suc n) a sd =
     shuffle_loop n
       (a(int (Suc n) := a (js_rem (sd * 1664525 + 1013904223) 2147483648 * (int (Suc n) + 1) div 2147483648),
          js_rem (sd * 1664525 + 1013904223) 2147483648 * (int (Suc n) + 1) div 2147483648 := a (int (Suc n))))
       (js_rem (sd * 1664525 + 1013904223) 2147483648)"
  by (simp only: shuffle_loop.simps bag_random_def Let_def prod.case floor_random)

lemma js_rem_nonneg:
  assumes "0 \<le> a"
  shows "0 \<le> js_rem a 2147483648" and "js_rem a 2147483648 < 2147483648"
  using assms by (auto simp: js_rem_def sgn_if)

lemma list_of_swap:
  assumes "0 \<le> i" "i < int m" "0 \<le> j" "j < int m"
  shows "list_of m (a(i := a j, j := a i)) =
         (list_of m a)[nat i := list_of m a ! nat j, nat j := list_of m a ! nat i]"
proof (rule nth_equalityI)
  show "length (list_of m (a(i := a j, j := a i))) =
        length ((list_of m a)[nat i := list_of m a ! nat j, nat j := list_of m a ! nat i])"
    by (simp add: list_of_def)
next
  fix k assume "k < length (list_of m (a(i := a j, j := a i)))"
  then have k: "k < m" by (simp add: list_of_def)
  have eqi: "(int k = i) = (k = nat i)" and eqj: "(int k = j) = (k = nat j)"
    using assms by auto
  show "list_of m (a(i := a j, j := a i)) ! k =
        (list_of m a)[nat i := list_of m a ! nat j, nat j := list_of m a ! nat i] ! k"
    using k assms by (simp add: list_of_def nth_list_update eqi eqj)
qed

lemma mset_list_of_swap:
  assumes "0 \<le> i" "i < int m" "0 \<le> j" "j < int m"
  shows "mset (list_of m (a(i := a j, j := a i))) = mset (list_of m a)"
proof -
  have "nat i < length (list_of m a)" "nat j < length (list_of m a)"
    using assms by (simp_all add: list_of_def)
  then show ?thesis
    unfolding list_of_swap [OF assms] by (simp add: mset_swap)
qed

lemma shuffle_loop_perm:
  assumes "n < m" "0 \<le> sd"
  shows "mset (list_of m (fst (shuffle_loop n a sd))) = mset (list_of m a)
         \<and> 0 \<le> snd (shuffle_loop n a sd)"
  using assms
proof (induction n arbitrary: a sd)
  case 0
  then show ?case by simp
next
  case (Suc n)
  let ?sd = "js_rem (sd * 1664525 + 1013904223) 2147483648"
  let ?j = "?sd * (int (Suc n) + 1) div 2147483648"
  let ?a = "a(int (Suc n) := a ?j, ?j := a (int (Suc n)))"
  have nn: "0 \<le> sd * 1664525 + 1013904223"
    using Suc.prems by simp
  have sd: "0 \<le> ?sd" "?sd < 2147483648"
    using js_rem_nonneg [OF nn] by simp_all
  have j0: "0 \<le> ?j"
    using sd by (simp add: pos_imp_zdiv_nonneg_iff)
  have "?sd * (int (Suc n) + 1) < 2147483648 * (int (Suc n) + 1)"
    using sd by (intro mult_strict_right_mono) simp_all
  then have j1: "?j < int (Suc n) + 1"
    by (simp add: div_less_iff_less_mult mult.commute)
  then have jm: "?j < int m"
    using Suc.prems by simp
  have sw: "mset (list_of m ?a) = mset (list_of m a)"
    by (rule mset_list_of_swap) (use Suc.prems j0 jm in simp_all)
  have "n < m"
    using Suc.prems by simp
  from Suc.IH [OF this sd(1), of ?a] sw show ?case
    by (simp only: shuffle_step)
qed

lemma list_of_arr_of: "list_of (length xs) (arr_of xs) = xs"
  by (rule nth_equalityI) (simp_all add: list_of_def arr_of_def)

lemma fillBag_perm:
  assumes "0 \<le> sd"
  shows "mset (fst (fillBag [] sd)) = mset (map Some all_types)" and "0 \<le> snd (fillBag [] sd)"
proof -
  let ?b = "map Some all_types"
  have "6 < length ?b" by (simp add: all_types_def)
  from shuffle_loop_perm [OF this assms, of "arr_of ?b"]
  have "mset (list_of (length ?b) (fst (shuffle_loop 6 (arr_of ?b) sd))) = mset ?b"
    and "0 \<le> snd (shuffle_loop 6 (arr_of ?b) sd)"
    by (simp_all only: list_of_arr_of)
  moreover have "length ?b - 1 = 6" by (simp add: all_types_def)
  ultimately show "mset (fst (fillBag [] sd)) = mset (map Some all_types)"
    and "0 \<le> snd (fillBag [] sd)"
    by (simp_all add: fillBag_def Let_def case_prod_beta del: shuffle_loop.simps)
qed


lemma draws_add: "draws (m + n) b = draws m b @ draws n (bag_after m b)"
  by (induction m arbitrary: b) (auto simp: case_prod_beta)

lemma bag_next_cons:
  "bag_next \<lparr>currentBag = t # rest, nextBag = n, seed = sd\<rparr> =
     (t, \<lparr>currentBag = rest, nextBag = n, seed = sd\<rparr>)"
  by (simp add: bag_next_def)

lemma bag_next_nil:
  "bag_next \<lparr>currentBag = [], nextBag = t # rest, seed = sd\<rparr> =
     (t, \<lparr>currentBag = rest, nextBag = fst (fillBag [] sd), seed = snd (fillBag [] sd)\<rparr>)"
  by (simp add: bag_next_def case_prod_beta)

lemma draws_currentBag:
  "draws (length c) \<lparr>currentBag = c, nextBag = n, seed = sd\<rparr> = c
   \<and> bag_after (length c) \<lparr>currentBag = c, nextBag = n, seed = sd\<rparr>
       = \<lparr>currentBag = [], nextBag = n, seed = sd\<rparr>"
  by (induction c) (simp_all add: bag_next_cons)

lemma mset_all_types_length:
  "mset xs = mset (map Some all_types) \<Longrightarrow> length xs = 7"
  by (drule arg_cong [where f = size]) (simp add: all_types_def)

text \<open>One block of seven draws from a state at a refill boundary.\<close>

lemma draws_block:
  assumes sd: "0 \<le> sd" and n: "mset n = mset (map Some all_types)"
    and c: "c = [] \<or> mset c = mset (map Some all_types)"
  shows "mset (draws 7 \<lparr>currentBag = c, nextBag = n, seed = sd\<rparr>) = mset (map Some all_types)"
    and "\<exists>n' sd'. bag_after 7 \<lparr>currentBag = c, nextBag = n, seed = sd\<rparr>
            = \<lparr>currentBag = [], nextBag = n', seed = sd'\<rparr>
          \<and> 0 \<le> sd' \<and> mset n' = mset (map Some all_types)"
proof -
  have ln: "length n = 7"
    using n by (rule mset_all_types_length)
  have "mset (draws 7 \<lparr>currentBag = c, nextBag = n, seed = sd\<rparr>) = mset (map Some all_types)
    \<and> (\<exists>n' sd'. bag_after 7 \<lparr>currentBag = c, nextBag = n, seed = sd\<rparr>
            = \<lparr>currentBag = [], nextBag = n', seed = sd'\<rparr>
          \<and> 0 \<le> sd' \<and> mset n' = mset (map Some all_types))"
  proof (cases "c = []")
    case False
    with c have mc: "mset c = mset (map Some all_types)" by simp
    then have lc: "length c = 7" by (rule mset_all_types_length)
    from draws_currentBag [of c n sd] show ?thesis
      unfolding lc using mc sd n by auto
  next
    case True
    obtain t rest where tr: "n = t # rest"
      using ln by (cases n) auto
    let ?b1 = "\<lparr>currentBag = rest, nextBag = fst (fillBag [] sd), seed = snd (fillBag [] sd)\<rparr>"
    have lr: "length rest = 6" using ln tr by simp
    have d: "draws 7 \<lparr>currentBag = [], nextBag = n, seed = sd\<rparr> = t # draws 6 ?b1"
      and a: "bag_after 7 \<lparr>currentBag = [], nextBag = n, seed = sd\<rparr> = bag_after 6 ?b1"
      by (simp_all add: numeral_eq_Suc tr bag_next_nil)
    from draws_currentBag [of rest "fst (fillBag [] sd)" "snd (fillBag [] sd)"]
    have "draws 6 ?b1 = rest" and "bag_after 6 ?b1 =
        \<lparr>currentBag = [], nextBag = fst (fillBag [] sd), seed = snd (fillBag [] sd)\<rparr>"
      unfolding lr by simp_all
    then show ?thesis
      unfolding True d a using fillBag_perm [OF sd] n tr by auto
  qed
  then show "mset (draws 7 \<lparr>currentBag = c, nextBag = n, seed = sd\<rparr>) = mset (map Some all_types)"
    and "\<exists>n' sd'. bag_after 7 \<lparr>currentBag = c, nextBag = n, seed = sd\<rparr>
            = \<lparr>currentBag = [], nextBag = n', seed = sd'\<rparr>
          \<and> 0 \<le> sd' \<and> mset n' = mset (map Some all_types)"
    by blast+
qed

lemma bag_after_add: "bag_after (m + n) b = bag_after n (bag_after m b)"
  by (induction m arbitrary: b) auto

lemma bag_after_blocks:
  assumes "0 \<le> sd0"
  shows "\<exists>c n sd. bag_after (7 * k) (BagRandomizer_new sd0) = \<lparr>currentBag = c, nextBag = n, seed = sd\<rparr>
           \<and> 0 \<le> sd \<and> mset n = mset (map Some all_types)
           \<and> (c = [] \<or> mset c = mset (map Some all_types))"
proof (induction k)
  case 0
  show ?case
    using fillBag_perm [OF assms] fillBag_perm [OF fillBag_perm(2) [OF assms]]
    by (simp add: BagRandomizer_new_def bag_reset_def case_prod_beta)
next
  case (Suc k)
  then obtain c n sd where st: "bag_after (7 * k) (BagRandomizer_new sd0) = \<lparr>currentBag = c, nextBag = n, seed = sd\<rparr>"
    and inv: "0 \<le> sd" "mset n = mset (map Some all_types)" "c = [] \<or> mset c = mset (map Some all_types)"
    by blast
  have "bag_after (7 * Suc k) (BagRandomizer_new sd0) = bag_after 7 (bag_after (7 * k) (BagRandomizer_new sd0))"
    using bag_after_add [of "7 * k" 7] by (simp add: add.commute)
  with draws_block(2) [OF inv] st show ?case
    by auto
qed

text \<open>
  For every non-negative integer seed, every block of seven draws aligned to a refill
  boundary holds each of the seven piece types exactly once.
\<close>

lemma draws_aligned_nonneg_seed:
  assumes "0 \<le> sd0"
  shows "mset (take 7 (drop (7 * k) (draws (7 * k + 7) (BagRandomizer_new sd0))))
           = mset (map Some all_types)"
proof -
  have len: "length (draws m b) = m" for m b
    by (induction m arbitrary: b) (auto simp: case_prod_beta)
  obtain c n sd where st: "bag_after (7 * k) (BagRandomizer_new sd0) = \<lparr>currentBag = c, nextBag = n, seed = sd\<rparr>"
    and inv: "0 \<le> sd" "mset n = mset (map Some all_types)" "c = [] \<or> mset c = mset (map Some all_types)"
    using bag_after_blocks [OF assms, of k] by blast
  have "take 7 (drop (7 * k) (draws (7 * k + 7) (BagRandomizer_new sd0)))
      = draws 7 (bag_after (7 * k) (BagRandomizer_new sd0))"
    by (simp add: draws_add len)
  then show ?thesis
    using draws_block(1) [OF inv] st by simp
qed


lemma bag_reset_ok:
  assumes "0 \<le> sd"
  shows "bag_ok (bag_reset sd)"
proof -
  have "None \<notin> set (fst (fillBag [] sd))"
    using fillBag_perm(1) [OF assms] by (metis (no_types, lifting) imageE option.distinct(1) set_map set_mset_mset)
  then show ?thesis
    using fillBag_perm [OF assms] fillBag_perm [OF fillBag_perm(2) [OF assms]]
    by (simp add: bag_ok_def bag_reset_def case_prod_beta)
qed

lemma bag_next_ok:
  assumes "bag_ok b"
  shows "bag_ok (snd (bag_next b))" and "\<exists>t. fst (bag_next b) = Some t"
proof -
  from assms have sd: "0 \<le> seed b" and n: "mset (nextBag b) = mset (map Some all_types)"
    and c: "None \<notin> set (currentBag b)"
    by (simp_all add: bag_ok_def)
  have nn: "None \<notin> set (nextBag b)"
    using n by (metis (no_types, lifting) imageE option.distinct(1) set_map set_mset_mset)
  have ne: "nextBag b \<noteq> []"
    using mset_all_types_length [OF n] by auto
  have "bag_ok (snd (bag_next b)) \<and> (\<exists>t. fst (bag_next b) = Some t)"
  proof (cases "currentBag b")
    case Nil
    obtain t rest where tr: "nextBag b = t # rest"
      using ne by (cases "nextBag b") auto
    show ?thesis
      using Nil tr nn fillBag_perm [OF sd]
      by (cases t) (auto simp: bag_next_def bag_ok_def case_prod_beta)
  next
    case (Cons t rest)
    then show ?thesis
      using c sd n by (cases t) (auto simp: bag_next_def bag_ok_def)
  qed
  then show "bag_ok (snd (bag_next b))" and "\<exists>t. fst (bag_next b) = Some t"
    by simp_all
qed

lemmas fill_eval = fillBag_def all_types_def shuffle_step shuffle_loop.simps(1) js_rem_def
  list_of_def arr_of_def Let_def

lemma fill_54321_1: "fillBag [] 54321 =
  ([Some O_piece, Some I_piece, Some T_piece, Some J_piece, Some S_piece, Some L_piece, Some Z_piece], 102299631)"
  by (simp del: shuffle_loop.simps add: fill_eval)

lemma fill_54321_2: "fillBag [] 102299631 =
  ([Some L_piece, Some S_piece, Some I_piece, Some O_piece, Some Z_piece, Some J_piece, Some T_piece], 1801476157)"
  by (simp del: shuffle_loop.simps add: fill_eval)

lemma fill_54321_3: "fillBag [] 1801476157 =
  ([Some S_piece, Some J_piece, Some O_piece, Some L_piece, Some Z_piece, Some I_piece, Some T_piece], 33496219)"
  by (simp del: shuffle_loop.simps add: fill_eval)

lemma fill_54321_4: "fillBag [] 33496219 =
  ([Some O_piece, Some T_piece, Some Z_piece, Some L_piece, Some I_piece, Some J_piece, Some S_piece], 319606921)"
  by (simp del: shuffle_loop.simps add: fill_eval)

lemma fill_neg_1: "fillBag [] (-1000) =
  ([Some I_piece, Some T_piece, None, Some L_piece, None, None, None], - 382508066)"
  by (simp del: shuffle_loop.simps add: fill_eval)

lemma fill_neg_2: "fillBag [] (- 382508066) =
  ([Some I_piece, Some J_piece, Some S_piece, Some Z_piece, Some L_piece, None, None], - 320422412)"
  by (simp del: shuffle_loop.simps add: fill_eval)

lemma new_54321: "BagRandomizer_new 54321 =
  \<lparr>currentBag = [Some O_piece, Some I_piece, Some T_piece, Some J_piece, Some S_piece, Some L_piece, Some Z_piece],
   nextBag = [Some L_piece, Some S_piece, Some I_piece, Some O_piece, Some Z_piece, Some J_piece, Some T_piece],
   seed = 1801476157\<rparr>"
  by (simp add: BagRandomizer_new_def bag_reset_def fill_54321_1 fill_54321_2)

lemma preview_15_54321: "preview 15 (BagRandomizer_new 54321) =
  ([Some O_piece, Some I_piece, Some T_piece, Some J_piece, Some S_piece, Some L_piece, Some Z_piece,
    Some L_piece, Some S_piece, Some I_piece, Some O_piece, Some Z_piece, Some J_piece, Some T_piece,
    Some S_piece],
   \<lparr>currentBag = [Some O_piece, Some I_piece, Some T_piece, Some J_piece, Some S_piece, Some L_piece, Some Z_piece],
    nextBag = [Some L_piece, Some S_piece, Some I_piece, Some O_piece, Some Z_piece, Some J_piece, Some T_piece],
    seed = 33496219\<rparr>)"
  by (simp add: new_54321 preview_def preview_loop.simps fill_54321_3 js_slice0_def)

text \<open>
  C5. The claim speaks of every seed. For non-negative integer seeds it holds
  (\<open>draws_aligned_nonneg_seed\<close>). For the seed -1000 the remainder keeps the sign of
  the negative dividend, random returns a negative number, \<open>j\<close> is negative, and the swap
  reads undefined into the bag: the first seven draws hold three piece types and four
  times undefined.
\<close>

theorem draws_negative_seed:
  "draws 7 (BagRandomizer_new (-1000)) =
     [Some I_piece, Some T_piece, None, Some L_piece, None, None, None]"
  by (simp add: BagRandomizer_new_def bag_reset_def fill_neg_1 fill_neg_2 bag_next_cons
      numeral_eq_Suc)

text \<open>
  C2. With the seed 54321 of the repository's test "should not affect the sequence when
  peeking", a call preview(15) asks for more than the 14 buffered pieces, fills a
  temporary bag and so advances the seed: the third block of seven draws differs from the
  one drawn without the call.
\<close>

theorem preview_changes_draws:
  "drop 14 (draws 21 (BagRandomizer_new 54321)) =
     [Some S_piece, Some J_piece, Some O_piece, Some L_piece, Some Z_piece, Some I_piece, Some T_piece]
   \<and> drop 14 (draws 21 (snd (preview 15 (BagRandomizer_new 54321)))) =
     [Some O_piece, Some T_piece, Some Z_piece, Some L_piece, Some I_piece, Some J_piece, Some S_piece]"
proof -
  have a: "draws 21 (BagRandomizer_new 54321) =
    [Some O_piece, Some I_piece, Some T_piece, Some J_piece, Some S_piece, Some L_piece, Some Z_piece,
     Some L_piece, Some S_piece, Some I_piece, Some O_piece, Some Z_piece, Some J_piece, Some T_piece,
     Some S_piece, Some J_piece, Some O_piece, Some L_piece, Some Z_piece, Some I_piece, Some T_piece]"
    unfolding new_54321
    by (simp add: bag_next_cons bag_next_nil fill_54321_3 fill_54321_4 numeral_eq_Suc)
  have b: "draws 21 (snd (preview 15 (BagRandomizer_new 54321))) =
    [Some O_piece, Some I_piece, Some T_piece, Some J_piece, Some S_piece, Some L_piece, Some Z_piece,
     Some L_piece, Some S_piece, Some I_piece, Some O_piece, Some Z_piece, Some J_piece, Some T_piece,
     Some O_piece, Some T_piece, Some Z_piece, Some L_piece, Some I_piece, Some J_piece, Some S_piece]"
    unfolding preview_15_54321 snd_conv
    by (simp add: bag_next_cons bag_next_nil fill_54321_4 numeral_eq_Suc)
  show ?thesis
    unfolding a b by simp
qed

section \<open>Properties of the controller\<close>

subsection \<open>Rotation and wall kicks\<close>

text \<open>
  The target rotation of a rotate input, the position a wall-kick offset leads to, and
  the input action of each direction.
\<close>

definition targetRotation :: "bool \<Rightarrow> Piece \<Rightarrow> RotationState" where
  "targetRotation clockwise p =
     (if clockwise then getNextRotationCW (rotation p) else getNextRotationCCW (rotation p))"

definition kickedPosition :: "Piece \<Rightarrow> Position \<Rightarrow> Position" where
  "kickedPosition p kick =
     \<lparr>pos_x = pos_x (position p) + pos_x kick, pos_y = pos_y (position p) + pos_y kick\<rparr>"

definition rotateAction :: "bool \<Rightarrow> InputAction" where
  "rotateAction clockwise = (if clockwise then ROTATE_CW else ROTATE_CCW)"

lemma tryKicks_none:
  "\<forall>k \<in> set ks. \<not> isValidPosition (board s) (ptype p) (kickedPosition p k) nr \<Longrightarrow>
     tryKicks s p nr ks = (False, s)"
  by (induction ks) (simp_all add: kickedPosition_def)

lemma tryKicks_first:
  "i < length ks \<Longrightarrow>
   isValidPosition (board s) (ptype p) (kickedPosition p (ks ! i)) nr \<Longrightarrow>
   \<forall>j < i. \<not> isValidPosition (board s) (ptype p) (kickedPosition p (ks ! j)) nr \<Longrightarrow>
   currentPiece (snd (tryKicks s p nr ks)) =
     Some (p\<lparr>position := kickedPosition p (ks ! i), rotation := nr\<rparr>)"
proof (induction ks arbitrary: i)
  case Nil
  then show ?case by simp
next
  case (Cons k ks)
  show ?case
  proof (cases i)
    case 0
    with Cons.prems show ?thesis
      by (simp add: kickedPosition_def Let_def)
  next
    case (Suc i')
    with Cons.prems have "\<not> isValidPosition (board s) (ptype p) (kickedPosition p k) nr"
      by auto
    moreover have "currentPiece (snd (tryKicks s p nr ks)) =
        Some (p\<lparr>position := kickedPosition p (ks ! i'), rotation := nr\<rparr>)"
      using Cons.prems Suc by (intro Cons.IH) auto
    ultimately show ?thesis
      using Suc by (simp add: kickedPosition_def)
  qed
qed

lemma handleInput_rotate:
  "state s = PLAYING \<Longrightarrow> currentPiece s = Some p \<Longrightarrow>
     handleInput (rotateAction cw) True s = Some (snd (rotatePiece cw s))"
  by (simp add: handleInput_def rotateAction_def)

text \<open>
  C8. In a Playing state with an active piece, a rotate input tries the rotation in
  place; if that position is invalid, the offsets of getWallKickOffsets for the pair
  (current rotation, target rotation) are tried in list order and the first one that
  gives a valid position is applied: the offset at index \<open>i\<close> is applied when it is valid
  and every offset before it is invalid, so no later offset has any effect. If no offset
  is valid the whole state, and with it the piece's position and rotation, is unchanged.
\<close>

theorem rotate_first_valid_kick:
  assumes "state s = PLAYING" and "currentPiece s = Some p"
  shows "\<exists>s'. handleInput (rotateAction cw) True s = Some s' \<and>
     (let nr = targetRotation cw p;
          ks = getWallKickOffsets (ptype p) (rotation p) nr;
          valid = (\<lambda>pos. isValidPosition (board s) (ptype p) pos nr)
      in (valid (position p) \<longrightarrow> currentPiece s' = Some (p\<lparr>rotation := nr\<rparr>))
       \<and> (\<not> valid (position p) \<longrightarrow>
            (\<forall>i < length ks.
               valid (kickedPosition p (ks ! i)) \<and> (\<forall>j < i. \<not> valid (kickedPosition p (ks ! j)))
               \<longrightarrow> currentPiece s' =
                     Some (p\<lparr>position := kickedPosition p (ks ! i), rotation := nr\<rparr>))
          \<and> ((\<forall>k \<in> set ks. \<not> valid (kickedPosition p k)) \<longrightarrow> s' = s)))"
proof -
  let ?nr = "targetRotation cw p"
  let ?ks = "getWallKickOffsets (ptype p) (rotation p) ?nr"
  have base: "isValidPosition (board s) (ptype p) (position p) ?nr \<Longrightarrow>
      currentPiece (snd (rotatePiece cw s)) = Some (p\<lparr>rotation := ?nr\<rparr>)"
    using assms by (simp add: rotatePiece_def targetRotation_def Let_def)
  have kicks: "\<not> isValidPosition (board s) (ptype p) (position p) ?nr \<Longrightarrow>
      rotatePiece cw s = tryKicks s p ?nr ?ks"
    using assms by (simp add: rotatePiece_def targetRotation_def Let_def)
  show ?thesis
    unfolding handleInput_rotate [OF assms] Let_def
    using base kicks tryKicks_first [of _ ?ks s p ?nr] tryKicks_none [of ?ks s p ?nr]
    by auto
qed


text \<open>
  A vertical I piece in column 0 of an empty board: the rotation in place and the first
  offset leave the board on the left, the second offset is applied.
\<close>

definition piece_I_at_wall :: Piece where
  "piece_I_at_wall =
     \<lparr>ptype = I_piece, position = \<lparr>pos_x = -2, pos_y = 5\<rparr>, rotation = RIGHT,
      locked = False, piece_lockTimer = 0\<rparr>"

definition game_I_at_wall :: Game where
  "game_I_at_wall = (Game_new 54321)\<lparr>state := PLAYING, currentPiece := Some piece_I_at_wall\<rparr>"

lemmas valid_eval = isValidPosition_def getShape_def Let_def createEmptyGrid_def

theorem rotate_first_valid_kick_witness:
  "state game_I_at_wall = PLAYING
   \<and> currentPiece game_I_at_wall = Some piece_I_at_wall
   \<and> getWallKickOffsets I_piece RIGHT DOUBLE = [mkpos (-1) 0, mkpos 2 0, mkpos (-1) 2, mkpos 2 (-1)]
   \<and> \<not> isValidPosition (board game_I_at_wall) I_piece \<lparr>pos_x = -2, pos_y = 5\<rparr> DOUBLE
   \<and> \<not> isValidPosition (board game_I_at_wall) I_piece \<lparr>pos_x = -3, pos_y = 5\<rparr> DOUBLE
   \<and> isValidPosition (board game_I_at_wall) I_piece \<lparr>pos_x = 0, pos_y = 5\<rparr> DOUBLE
   \<and> (\<exists>s'. handleInput ROTATE_CW True game_I_at_wall = Some s'
         \<and> currentPiece s' =
             Some (piece_I_at_wall\<lparr>position := \<lparr>pos_x = 0, pos_y = 5\<rparr>, rotation := DOUBLE\<rparr>))"
proof -
  have st: "state game_I_at_wall = PLAYING" and cp: "currentPiece game_I_at_wall = Some piece_I_at_wall"
    and bd: "board game_I_at_wall = createEmptyGrid"
    by (simp_all add: game_I_at_wall_def Game_new_def)
  have ks: "getWallKickOffsets I_piece RIGHT DOUBLE = [mkpos (-1) 0, mkpos 2 0, mkpos (-1) 2, mkpos 2 (-1)]"
    by (simp add: getWallKickOffsets_def)
  have v0: "\<not> isValidPosition createEmptyGrid I_piece \<lparr>pos_x = -2, pos_y = 5\<rparr> DOUBLE"
    and k0: "\<not> isValidPosition createEmptyGrid I_piece \<lparr>pos_x = -3, pos_y = 5\<rparr> DOUBLE"
    and k1: "isValidPosition createEmptyGrid I_piece \<lparr>pos_x = 0, pos_y = 5\<rparr> DOUBLE"
    by (simp_all add: valid_eval)
  have nr: "targetRotation True piece_I_at_wall = DOUBLE"
    by (simp add: targetRotation_def piece_I_at_wall_def getNextRotationCW_def rot_of_def)
  have kp: "kickedPosition piece_I_at_wall (mkpos (-1) 0) = \<lparr>pos_x = -3, pos_y = 5\<rparr>"
    "kickedPosition piece_I_at_wall (mkpos 2 0) = \<lparr>pos_x = 0, pos_y = 5\<rparr>"
    by (simp_all add: kickedPosition_def piece_I_at_wall_def mkpos_def)
  have pf: "ptype piece_I_at_wall = I_piece" "rotation piece_I_at_wall = RIGHT"
    "position piece_I_at_wall = \<lparr>pos_x = -2, pos_y = 5\<rparr>"
    by (simp_all add: piece_I_at_wall_def)
  from rotate_first_valid_kick [OF st cp, of True]
  obtain s' where h: "handleInput ROTATE_CW True game_I_at_wall = Some s'"
    and first: "\<forall>i < 4.
        isValidPosition createEmptyGrid I_piece
          (kickedPosition piece_I_at_wall ([mkpos (-1) 0, mkpos 2 0, mkpos (-1) 2, mkpos 2 (-1)] ! i)) DOUBLE
        \<and> (\<forall>j < i. \<not> isValidPosition createEmptyGrid I_piece
              (kickedPosition piece_I_at_wall ([mkpos (-1) 0, mkpos 2 0, mkpos (-1) 2, mkpos 2 (-1)] ! j)) DOUBLE)
        \<longrightarrow> currentPiece s' = Some (piece_I_at_wall\<lparr>position :=
              kickedPosition piece_I_at_wall ([mkpos (-1) 0, mkpos 2 0, mkpos (-1) 2, mkpos 2 (-1)] ! i),
              rotation := DOUBLE\<rparr>)"
    unfolding Let_def nr pf ks bd rotateAction_def using v0 by auto
  from first [rule_format, of 1] k0 k1
  have "currentPiece s' = Some (piece_I_at_wall\<lparr>position := \<lparr>pos_x = 0, pos_y = 5\<rparr>, rotation := DOUBLE\<rparr>)"
    by (simp add: kp)
  with h st cp ks v0 k0 k1 show ?thesis
    unfolding bd by simp
qed

subsection \<open>Locking, scoring and completion\<close>

text \<open>
  The number of lines a lock of piece \<open>p\<close> in state \<open>s\<close> clears, and the state of
  lockCurrentPiece after its line handling, before the checks for the end of the game.
\<close>

definition linesCleared :: "Game \<Rightarrow> Piece \<Rightarrow> nat" where
  "linesCleared s p =
     length (snd (clearLines (lockPiece (board s) (ptype p) (position p) (rotation p))))"

definition lineHandled :: "Game \<Rightarrow> Piece \<Rightarrow> Game" where
  "lineHandled s p =
    (let s1 = s\<lparr>board := lockPiece (board s) (ptype p) (position p) (rotation p)\<rparr>;
         s2 = (if ptype p = T_piece \<and>
                  isTSpin (board s1) (position p) (rotation p) (lastWasRotation s1)
               then emit tspin s1 else s1);
         s3 = emit (piece_lock p) s2;
         cl = clearLines (board s3);
         s4 = s3\<lparr>board := fst cl\<rparr>;
         clearedLines = snd cl
     in if length clearedLines > 0
        then emit (line_clear clearedLines) (handleLineClears (int (length clearedLines)) s4)
        else s4\<lparr>stats := (stats s4)\<lparr>combo := 0\<rparr>\<rparr>)"

lemma emit_fields [simp]:
  "stats (emit e s) = stats s" "bag (emit e s) = bag s" "board (emit e s) = board s"
  "state (emit e s) = state s" "currentPiece (emit e s) = currentPiece s"
  "lastWasRotation (emit e s) = lastWasRotation s"
  "emitted (emit e s) = emitted s @ [e]"
  by (simp_all add: emit_def)

lemma handleLineClears_stats:
  "stats (handleLineClears n s) =
     \<lparr>score = score (stats s)
         + (if n = 1 then 100 else if n = 2 then 300 else if n = 3 then 500
            else if n = 4 then (if backToBack (stats s) then 1200 else 800) else 0)
           * (level (stats s) + 1)
         + 50 * (combo (stats s) + 1) * (level (stats s) + 1),
      level = (if min ((lines (stats s) + n) div 10) 29 > level (stats s)
               then min ((lines (stats s) + n) div 10) 29 else level (stats s)),
      lines = lines (stats s) + n,
      combo = combo (stats s) + 1,
      backToBack = (if n = 1 \<or> n = 2 \<or> n = 3 then False else if n = 4 then True
                    else backToBack (stats s))\<rparr>"
proof -
  define st1 where "st1 = (stats s)\<lparr>lines := lines (stats s) + n\<rparr>"
  define st2 where "st2 = st1\<lparr>combo := combo st1 + 1\<rparr>"
  define s2 where "s2 = (if combo st2 > 1 then emit (combo_event (combo st2)) s else s)"
  define baseScore where "baseScore =
            (if n = 1 then SCORE_SINGLE
             else if n = 2 then SCORE_DOUBLE
             else if n = 3 then SCORE_TRIPLE
             else if n = 4 then
               (if backToBack st2 then SCORE_TETRIS * 3 div 2 else SCORE_TETRIS)
             else 0)"
  define st3 where "st3 = st2\<lparr>backToBack :=
                      (if n = 1 \<or> n = 2 \<or> n = 3 then False
                       else if n = 4 then True
                       else backToBack st2)\<rparr>"
  define st4 where "st4 = st3\<lparr>score := score st3 + baseScore * (level st3 + 1)
                                + 50 * combo st3 * (level st3 + 1)\<rparr>"
  define newLevel where "newLevel = min (lines st4 div 10) 29"
  have h: "handleLineClears n s =
      (if newLevel > level st4
         then emit (level_up newLevel) (s2\<lparr>stats := st4\<lparr>level := newLevel\<rparr>\<rparr>)
         else s2\<lparr>stats := st4\<rparr>)"
    unfolding handleLineClears_def Let_def newLevel_def st4_def st3_def baseScore_def s2_def
      st2_def st1_def by (rule refl)
  have f2: "lines st2 = lines (stats s) + n" "combo st2 = combo (stats s) + 1"
    "score st2 = score (stats s)" "level st2 = level (stats s)"
    "backToBack st2 = backToBack (stats s)"
    by (simp_all add: st2_def st1_def)
  have f3: "lines st3 = lines (stats s) + n" "combo st3 = combo (stats s) + 1"
    "score st3 = score (stats s)" "level st3 = level (stats s)"
    by (simp_all add: st3_def f2)
  have b: "baseScore = (if n = 1 then 100 else if n = 2 then 300 else if n = 3 then 500
            else if n = 4 then (if backToBack (stats s) then 1200 else 800) else 0)"
    by (simp add: baseScore_def f2)
  have f4: "lines st4 = lines (stats s) + n" "combo st4 = combo (stats s) + 1"
    "level st4 = level (stats s)"
    "score st4 = score (stats s) + baseScore * (level (stats s) + 1)
         + 50 * (combo (stats s) + 1) * (level (stats s) + 1)"
    "backToBack st4 = (if n = 1 \<or> n = 2 \<or> n = 3 then False else if n = 4 then True
                    else backToBack (stats s))"
    by (simp_all add: st4_def f3) (simp_all add: st3_def f2)
  have "stats (handleLineClears n s) = (if newLevel > level st4 then st4\<lparr>level := newLevel\<rparr> else st4)"
    unfolding h by simp
  moreover have nl: "newLevel = min ((lines (stats s) + n) div 10) 29"
    by (simp only: newLevel_def f4)
  ultimately show ?thesis
    by (cases "min ((lines (stats s) + n) div 10) 29 > level (stats s)")
       (simp_all only: nl f4 b if_True if_False GameStats.equality
         GameStats.simps GameStats.update_convs GameStats.select_convs, simp_all add: f4 b)
qed


lemma handleLineClears_frame [simp]:
  "bag (handleLineClears n s) = bag s" "board (handleLineClears n s) = board s"
  "state (handleLineClears n s) = state s" "currentPiece (handleLineClears n s) = currentPiece s"
  by (simp_all add: handleLineClears_def Let_def)

lemma lineHandled_frame [simp]:
  "bag (lineHandled s p) = bag s" "state (lineHandled s p) = state s"
  "currentPiece (lineHandled s p) = currentPiece s"
  by (simp_all add: lineHandled_def Let_def)

lemma handleLineClears_stats_cong:
  "stats s1 = stats s \<Longrightarrow> stats (handleLineClears n s1) = stats (handleLineClears n s)"
  by (simp only: handleLineClears_stats)

lemma lineHandled_stats:
  "stats (lineHandled s p) =
     (if linesCleared s p > 0 then stats (handleLineClears (int (linesCleared s p)) s)
      else (stats s)\<lparr>combo := 0\<rparr>)"
proof -
  have "stats (handleLineClears n (s0\<lparr>board := b\<rparr>)) = stats (handleLineClears n s)"
    if "stats s0 = stats s" for n s0 b
    by (rule handleLineClears_stats_cong) (simp add: that)
  then show ?thesis
    by (simp add: lineHandled_def linesCleared_def Let_def)
qed

lemma lockCurrentPiece_unfold:
  "currentPiece s = Some p \<Longrightarrow>
   lockCurrentPiece s =
     (if lines (stats (lineHandled s p)) \<ge> 999 then Some ((lineHandled s p)\<lparr>state := COMPLETED\<rparr>)
      else (case spawnNextPiece (lineHandled s p) of
              None \<Rightarrow> None
            | Some s6 \<Rightarrow> Some (s6\<lparr>canHold := True\<rparr>)))"
  by (simp add: lockCurrentPiece_def lineHandled_def Let_def isGameOver_def)

lemma spawnNextPiece_stats:
  assumes "spawnNextPiece s = Some s'"
  shows "stats s' = stats s"
proof -
  obtain r b' where nx: "bag_next (bag s) = (r, b')"
    by (cases "bag_next (bag s)")
  show ?thesis
  proof (cases r)
    case None
    with assms nx show ?thesis by (simp add: spawnNextPiece_def)
  next
    case (Some t)
    with assms nx show ?thesis
      by (auto simp: spawnNextPiece_def Let_def split: if_splits)
  qed
qed

lemma spawnNextPiece_total:
  assumes "bag_ok (bag s)"
  shows "\<exists>s'. spawnNextPiece s = Some s' \<and> bag_ok (bag s')"
proof -
  obtain r b' where nx: "bag_next (bag s) = (r, b')"
    by (cases "bag_next (bag s)")
  from bag_next_ok [OF assms] nx obtain t where t: "r = Some t" and ok: "bag_ok b'"
    by auto
  show ?thesis
    unfolding spawnNextPiece_def nx t using ok by (simp add: Let_def)
qed

lemma lockCurrentPiece_stats:
  assumes "currentPiece s = Some p" and "lockCurrentPiece s = Some s'"
  shows "stats s' = stats (lineHandled s p)"
  using assms(2) unfolding lockCurrentPiece_unfold [OF assms(1)]
  by (auto dest: spawnNextPiece_stats split: if_splits option.splits)

lemma lockCurrentPiece_total:
  assumes "bag_ok (bag s)"
  shows "\<exists>s'. lockCurrentPiece s = Some s' \<and> bag_ok (bag s')"
proof (cases "currentPiece s")
  case None
  then show ?thesis using assms by (simp add: lockCurrentPiece_def)
next
  case (Some p)
  from spawnNextPiece_total [of "lineHandled s p"] assms
  obtain s6 where "spawnNextPiece (lineHandled s p) = Some s6" "bag_ok (bag s6)"
    by auto
  then show ?thesis
    unfolding lockCurrentPiece_unfold [OF Some] using assms by simp
qed


lemma lock_stats_lines:
  assumes "bag_ok (bag s)" and "currentPiece s = Some p" and "0 < linesCleared s p"
  shows "\<exists>s'. lockCurrentPiece s = Some s' \<and> bag_ok (bag s')
           \<and> stats s' = stats (handleLineClears (int (linesCleared s p)) s)"
proof -
  from lockCurrentPiece_total [OF assms(1)] obtain s' where
    l: "lockCurrentPiece s = Some s'" and ok: "bag_ok (bag s')"
    by blast
  from lockCurrentPiece_stats [OF assms(2) l] assms(3) l ok show ?thesis
    by (simp add: lineHandled_stats)
qed

text \<open>
  C4, amended. In a state at level \<open>L\<close> with backToBack false and combo 0, a lock that
  clears 4 lines sets backToBack, makes the combo 1 and adds
  \<open>800 * (L + 1) + 50 * combo * (L + 1)\<close> to the score. The level after this lock is the
  larger of \<open>L\<close> and \<open>min (floor (lines / 10)) 29\<close>. An immediately following lock
  that again clears 4 lines makes the combo 2 and adds
  \<open>1200 * (L1 + 1) + 50 * combo * (L1 + 1)\<close>, where \<open>L1\<close> is the level after the first
  lock (which is \<open>L\<close> unless the first clear raised the level). A lock that clears 1, 2
  or 3 lines sets backToBack to false.
\<close>

theorem lock_tetris_scoring:
  assumes "bag_ok (bag s)" and "currentPiece s = Some p" and "linesCleared s p = 4"
    and "\<not> backToBack (stats s)" and "combo (stats s) = 0"
  shows "\<exists>s1. lockCurrentPiece s = Some s1
      \<and> backToBack (stats s1) \<and> combo (stats s1) = 1
      \<and> score (stats s1) = score (stats s) + 800 * (level (stats s) + 1)
                               + 50 * combo (stats s1) * (level (stats s) + 1)
      \<and> level (stats s1) = max (level (stats s)) (min ((lines (stats s) + 4) div 10) 29)
      \<and> (\<forall>t q. bag_ok (bag t) \<and> currentPiece t = Some q \<and> linesCleared t q = 4
             \<and> backToBack (stats t) = backToBack (stats s1) \<and> combo (stats t) = combo (stats s1)
             \<and> level (stats t) = level (stats s1)
           \<longrightarrow> (\<exists>t1. lockCurrentPiece t = Some t1 \<and> backToBack (stats t1)
                 \<and> combo (stats t1) = 2
                 \<and> score (stats t1) = score (stats t) + 1200 * (level (stats s1) + 1)
                                          + 50 * combo (stats t1) * (level (stats s1) + 1)))
      \<and> (\<forall>u r. bag_ok (bag u) \<and> currentPiece u = Some r
             \<and> linesCleared u r \<in> {1, 2, 3}
           \<longrightarrow> (\<exists>u1. lockCurrentPiece u = Some u1 \<and> \<not> backToBack (stats u1)))"
proof -
  from lock_stats_lines [OF assms(1,2)] assms(3) obtain s1 where
    l1: "lockCurrentPiece s = Some s1" and st1: "stats s1 = stats (handleLineClears 4 s)"
    by auto
  have a: "backToBack (stats s1)" "combo (stats s1) = 1"
    "score (stats s1) = score (stats s) + 800 * (level (stats s) + 1)
                               + 50 * combo (stats s1) * (level (stats s) + 1)"
    unfolding st1 handleLineClears_stats using assms(4,5) by simp_all
  have lv: "level (stats s1) = max (level (stats s)) (min ((lines (stats s) + 4) div 10) 29)"
  proof -
    have m: "(if a < m then m else a) = max a m" for a m :: int
      by (simp add: max_def)
    show ?thesis
      unfolding st1 handleLineClears_stats by (simp only: GameStats.select_convs m)
  qed
  have b: "\<exists>t1. lockCurrentPiece t = Some t1 \<and> backToBack (stats t1)
                 \<and> combo (stats t1) = 2
                 \<and> score (stats t1) = score (stats t) + 1200 * (level (stats s1) + 1)
                                          + 50 * combo (stats t1) * (level (stats s1) + 1)"
    if t: "bag_ok (bag t)" "currentPiece t = Some q" "linesCleared t q = 4"
      "backToBack (stats t) = backToBack (stats s1)" "combo (stats t) = combo (stats s1)"
      "level (stats t) = level (stats s1)" for t q
  proof -
    from lock_stats_lines [OF t(1,2)] t(3) obtain t1 where
      "lockCurrentPiece t = Some t1" and "stats t1 = stats (handleLineClears 4 t)"
      by auto
    then show ?thesis
      unfolding handleLineClears_stats using t(4,5,6) a(1,2) by simp
  qed
  have c: "\<exists>u1. lockCurrentPiece u = Some u1 \<and> \<not> backToBack (stats u1)"
    if u: "bag_ok (bag u)" "currentPiece u = Some r" "linesCleared u r \<in> {1, 2, 3}" for u r
  proof -
    from u(3) have "0 < linesCleared u r" by auto
    from lock_stats_lines [OF u(1,2) this] obtain u1 where
      "lockCurrentPiece u = Some u1"
      and "stats u1 = stats (handleLineClears (int (linesCleared u r)) u)"
      by auto
    then show ?thesis
      unfolding handleLineClears_stats using u(3) by auto
  qed
  from l1 a lv b c show ?thesis
    by blast
qed


text \<open>
  A board whose four bottom rows lack only column 0, a vertical I piece in column 0, and
  a Playing state at level 0 with 6 lines.
\<close>

definition board_four_open :: Grid where
  "board_four_open =
     replicate 18 (replicate BOARD_WIDTH None)
     @ [None # replicate 9 (Some O_piece), None # replicate 9 (Some O_piece),
        None # replicate 9 (Some O_piece), None # replicate 9 (Some O_piece)]"

definition piece_I_col0 :: Piece where
  "piece_I_col0 =
     \<lparr>ptype = I_piece, position = \<lparr>pos_x = -1, pos_y = 18\<rparr>, rotation = LEFT,
      locked = False, piece_lockTimer = 0\<rparr>"

definition game_before_tetris :: Game where
  "game_before_tetris =
     (Game_new 54321)
       \<lparr>board := board_four_open, state := PLAYING,
        stats := \<lparr>score = 0, level = 0, lines = 6, combo = 0, backToBack = False\<rparr>,
        currentPiece := Some piece_I_col0\<rparr>"

lemma lockPiece_four_open:
  "lockPiece board_four_open I_piece \<lparr>pos_x = -1, pos_y = 18\<rparr> LEFT =
     replicate 18 (replicate BOARD_WIDTH None)
     @ [Some I_piece # replicate 9 (Some O_piece), Some I_piece # replicate 9 (Some O_piece),
        Some I_piece # replicate 9 (Some O_piece), Some I_piece # replicate 9 (Some O_piece)]"
  by (simp add: lockPiece_def getShape_def board_four_open_def Let_def list_update_append
      nth_append)

lemma isFullRow_Cons_replicate:
  "isFullRow (c # replicate 9 d) = (c \<noteq> None \<and> d \<noteq> None)"
  by (auto simp: isFullRow_def list_all_iff)

lemma detectedIndices_append:
  "detectedIndices i (xs @ ys) =
     map (\<lambda>k. k + int (length (filter isFullRow ys))) (detectedIndices i xs)
     @ detectedIndices (i + length xs) ys"
  by (induction xs arbitrary: i) auto

lemma detectedIndices_empty_rows:
  "detectedIndices i (replicate n (replicate BOARD_WIDTH None)) = []"
  by (induction n arbitrary: i) (simp_all del: replicate.simps(2) add: replicate_Suc [of _ "replicate BOARD_WIDTH None"])

lemma linesCleared_four_open:
  "board s = board_four_open \<Longrightarrow> linesCleared s piece_I_col0 = 4"
  by (simp add: linesCleared_def piece_I_col0_def lockPiece_four_open clearLines_indices
      detectedIndices_append detectedIndices_empty_rows isFullRow_Cons_replicate)


lemma game_before_tetris_fields:
  "bag_ok (bag game_before_tetris)" "currentPiece game_before_tetris = Some piece_I_col0"
  "board game_before_tetris = board_four_open"
  "stats game_before_tetris = \<lparr>score = 0, level = 0, lines = 6, combo = 0, backToBack = False\<rparr>"
  "state game_before_tetris = PLAYING"
  by (simp_all add: game_before_tetris_def Game_new_def BagRandomizer_new_def bag_reset_ok)

text \<open>
  C4 as stated fails when the first four-line clear raises the level: from level 0 with 6
  lines the first lock adds 850 and raises the level to 1, and the following four-line
  lock adds \<open>1200 * 2 + 50 * 2 * 2 = 2600\<close>, not \<open>1200 * 1 + 50 * 2 * 1 = 1300\<close>.
\<close>

theorem second_tetris_counterexample:
  "\<exists>s1 t1. state game_before_tetris = PLAYING
     \<and> level (stats game_before_tetris) = 0 \<and> \<not> backToBack (stats game_before_tetris)
     \<and> linesCleared game_before_tetris piece_I_col0 = 4
     \<and> lockCurrentPiece game_before_tetris = Some s1
     \<and> score (stats s1) = score (stats game_before_tetris) + 800 * (0 + 1) + 50 * 1 * (0 + 1)
     \<and> combo (stats s1) = 1
     \<and> linesCleared (s1\<lparr>board := board_four_open, currentPiece := Some piece_I_col0\<rparr>) piece_I_col0 = 4
     \<and> lockCurrentPiece (s1\<lparr>board := board_four_open, currentPiece := Some piece_I_col0\<rparr>) = Some t1
     \<and> combo (stats t1) = 2
     \<and> score (stats t1) = score (stats s1) + 2600
     \<and> score (stats t1) \<noteq> score (stats s1) + 800 * 3 div 2 * (0 + 1) + 50 * 2 * (0 + 1)"
proof -
  note f = game_before_tetris_fields
  have n1: "linesCleared game_before_tetris piece_I_col0 = 4"
    by (rule linesCleared_four_open) (rule f)
  from lock_stats_lines [OF f(1) f(2)] n1 obtain s1 where
    l1: "lockCurrentPiece game_before_tetris = Some s1" and ok1: "bag_ok (bag s1)"
    and st1: "stats s1 = stats (handleLineClears 4 game_before_tetris)"
    by auto
  have v1: "stats s1 = \<lparr>score = 850, level = 1, lines = 10, combo = 1, backToBack = True\<rparr>"
    unfolding st1 handleLineClears_stats f(4) by simp
  let ?t = "s1\<lparr>board := board_four_open, currentPiece := Some piece_I_col0\<rparr>"
  have n2: "linesCleared ?t piece_I_col0 = 4"
    by (rule linesCleared_four_open) simp
  have "bag_ok (bag ?t)" "currentPiece ?t = Some piece_I_col0"
    using ok1 by simp_all
  from lock_stats_lines [OF this] n2 obtain t1 where
    l2: "lockCurrentPiece ?t = Some t1" and st2: "stats t1 = stats (handleLineClears 4 ?t)"
    by auto
  have v2: "stats t1 = \<lparr>score = 3450, level = 1, lines = 14, combo = 2, backToBack = True\<rparr>"
    unfolding st2 handleLineClears_stats by (simp add: v1)
  show ?thesis
    using f(5) n1 l1 n2 l2 by (simp add: v1 v2 f(4))
qed

theorem lock_tetris_scoring_witness:
  "bag_ok (bag game_before_tetris) \<and> currentPiece game_before_tetris = Some piece_I_col0
   \<and> linesCleared game_before_tetris piece_I_col0 = 4
   \<and> \<not> backToBack (stats game_before_tetris) \<and> combo (stats game_before_tetris) = 0
   \<and> (\<exists>s1. lockCurrentPiece game_before_tetris = Some s1
         \<and> stats s1 = \<lparr>score = 850, level = 1, lines = 10, combo = 1, backToBack = True\<rparr>)"
proof -
  note f = game_before_tetris_fields
  have n1: "linesCleared game_before_tetris piece_I_col0 = 4"
    by (rule linesCleared_four_open) (rule f)
  have b: "\<not> backToBack (stats game_before_tetris)" and c: "combo (stats game_before_tetris) = 0"
    by (simp_all add: f(4))
  from lock_tetris_scoring [OF f(1) f(2) n1 b c] obtain s1 where
    l: "lockCurrentPiece game_before_tetris = Some s1"
    and "backToBack (stats s1)" "combo (stats s1) = 1"
    "score (stats s1) = score (stats game_before_tetris) + 800 * (level (stats game_before_tetris) + 1)
        + 50 * combo (stats s1) * (level (stats game_before_tetris) + 1)"
    "level (stats s1) = max (level (stats game_before_tetris))
        (min ((lines (stats game_before_tetris) + 4) div 10) 29)"
    by blast
  moreover have "lines (stats s1) = 10"
    using lockCurrentPiece_stats [OF f(2) l] n1
    by (simp add: lineHandled_stats handleLineClears_stats f(4))
  ultimately have "stats s1 = \<lparr>score = 850, level = 1, lines = 10, combo = 1, backToBack = True\<rparr>"
    by (intro GameStats.equality) (simp_all add: f(4))
  with f(1,2) n1 b c l show ?thesis
    by simp
qed

text \<open>
  The events a lock of piece \<open>p\<close> in state \<open>s\<close> passes to emit up to the end of its
  line handling: tspin (for a T piece that qualifies), piece_lock, and after a clear
  combo (from the second consecutive clear on), level_up (when the level rises) and
  line_clear.
\<close>

definition lockEvents :: "Game \<Rightarrow> Piece \<Rightarrow> GameEvent list" where
  "lockEvents s p =
     (let g = lockPiece (board s) (ptype p) (position p) (rotation p);
          clearedLines = snd (clearLines g);
          n = int (length clearedLines);
          newLevel = min ((lines (stats s) + n) div 10) 29
      in (if ptype p = T_piece \<and> isTSpin g (position p) (rotation p) (lastWasRotation s)
          then [tspin] else [])
         @ [piece_lock p]
         @ (if length clearedLines > 0 then
              (if combo (stats s) + 1 > 1 then [combo_event (combo (stats s) + 1)] else [])
              @ (if newLevel > level (stats s) then [level_up newLevel] else [])
              @ [line_clear clearedLines]
            else []))"

lemma handleLineClears_emitted:
  "emitted (handleLineClears n s) =
     emitted s
     @ (if combo (stats s) + 1 > 1 then [combo_event (combo (stats s) + 1)] else [])
     @ (if min ((lines (stats s) + n) div 10) 29 > level (stats s)
        then [level_up (min ((lines (stats s) + n) div 10) 29)] else [])"
proof -
  define st1 where "st1 = (stats s)\<lparr>lines := lines (stats s) + n\<rparr>"
  define st2 where "st2 = st1\<lparr>combo := combo st1 + 1\<rparr>"
  define s2 where "s2 = (if combo st2 > 1 then emit (combo_event (combo st2)) s else s)"
  define baseScore where "baseScore =
            (if n = 1 then SCORE_SINGLE
             else if n = 2 then SCORE_DOUBLE
             else if n = 3 then SCORE_TRIPLE
             else if n = 4 then
               (if backToBack st2 then SCORE_TETRIS * 3 div 2 else SCORE_TETRIS)
             else 0)"
  define st3 where "st3 = st2\<lparr>backToBack :=
                      (if n = 1 \<or> n = 2 \<or> n = 3 then False
                       else if n = 4 then True
                       else backToBack st2)\<rparr>"
  define st4 where "st4 = st3\<lparr>score := score st3 + baseScore * (level st3 + 1)
                                + 50 * combo st3 * (level st3 + 1)\<rparr>"
  define newLevel where "newLevel = min (lines st4 div 10) 29"
  have h: "handleLineClears n s =
      (if newLevel > level st4
         then emit (level_up newLevel) (s2\<lparr>stats := st4\<lparr>level := newLevel\<rparr>\<rparr>)
         else s2\<lparr>stats := st4\<rparr>)"
    unfolding handleLineClears_def Let_def newLevel_def st4_def st3_def baseScore_def s2_def
      st2_def st1_def by (rule refl)
  have f2: "combo st2 = combo (stats s) + 1"
    by (simp add: st2_def st1_def)
  have f4: "lines st4 = lines (stats s) + n" "level st4 = level (stats s)"
    by (simp_all add: st4_def st3_def st2_def st1_def)
  have nl: "newLevel = min ((lines (stats s) + n) div 10) 29"
    by (simp only: newLevel_def f4)
  have e2: "emitted s2 = emitted s
      @ (if combo (stats s) + 1 > 1 then [combo_event (combo (stats s) + 1)] else [])"
    by (simp add: s2_def f2)
  have "emitted (handleLineClears n s) =
      emitted s2 @ (if newLevel > level st4 then [level_up newLevel] else [])"
    unfolding h by simp
  then show ?thesis
    by (simp only: e2 nl f4 append_assoc)
qed

lemma lineHandled_emitted:
  "emitted (lineHandled s p) = emitted s @ lockEvents s p"
proof -
  define g where "g = lockPiece (board s) (ptype p) (position p) (rotation p)"
  define s1 where "s1 = s\<lparr>board := g\<rparr>"
  define s2 where "s2 = (if ptype p = T_piece \<and>
                  isTSpin (board s1) (position p) (rotation p) (lastWasRotation s1)
               then emit tspin s1 else s1)"
  define s3 where "s3 = emit (piece_lock p) s2"
  define cl where "cl = clearLines (board s3)"
  define s4 where "s4 = s3\<lparr>board := fst cl\<rparr>"
  define ts where "ts = (if ptype p = T_piece \<and> isTSpin g (position p) (rotation p) (lastWasRotation s)
          then [tspin] else [])"
  have h: "lineHandled s p =
      (if length (snd cl) > 0
       then emit (line_clear (snd cl)) (handleLineClears (int (length (snd cl))) s4)
       else s4\<lparr>stats := (stats s4)\<lparr>combo := 0\<rparr>\<rparr>)"
    unfolding lineHandled_def Let_def s4_def cl_def s3_def s2_def s1_def g_def by (rule refl)
  have b2: "board s2 = g" "stats s2 = stats s" "emitted s2 = emitted s @ ts"
    by (simp_all add: s2_def s1_def ts_def)
  have b3: "board s3 = g" "stats s3 = stats s" "emitted s3 = emitted s @ ts @ [piece_lock p]"
    by (simp_all add: s3_def b2)
  have b4: "stats s4 = stats s" "emitted s4 = emitted s @ ts @ [piece_lock p]"
    by (simp_all add: s4_def b3)
  have c: "snd cl = snd (clearLines g)"
    by (simp add: cl_def b3)
  have le: "lockEvents s p = ts @ [piece_lock p]
      @ (if length (snd cl) > 0 then
              (if combo (stats s) + 1 > 1 then [combo_event (combo (stats s) + 1)] else [])
              @ (if min ((lines (stats s) + int (length (snd cl))) div 10) 29 > level (stats s)
                 then [level_up (min ((lines (stats s) + int (length (snd cl))) div 10) 29)] else [])
              @ [line_clear (snd cl)]
            else [])"
    unfolding lockEvents_def Let_def c ts_def g_def by (rule refl)
  show ?thesis
  proof (cases "length (snd cl) > 0")
    case True
    then show ?thesis
      unfolding h le by (simp only: if_True emit_fields handleLineClears_emitted b4 append_assoc)
  next
    case False
    then show ?thesis
      unfolding h le by (simp add: b4)
  qed
qed


lemma lineHandled_lines:
  "lines (stats (lineHandled s p)) = lines (stats s) + int (linesCleared s p)"
  by (simp add: lineHandled_stats handleLineClears_stats)

text \<open>
  C3, amended. Whenever lock processing brings the total line count to at least 999, the
  controller transitions to the Completed state and spawns no further piece. The outcome
  is signalled by the state alone: the lock emits exactly the events of any lock
  (\<open>lockEvents\<close>), GameEvent has no completion event, and no game-over event is emitted.
\<close>

theorem lock_completion_state_only:
  assumes "currentPiece s = Some p" and "lines (stats s) + int (linesCleared s p) \<ge> 999"
  shows "\<exists>s'. lockCurrentPiece s = Some s' \<and> state s' = COMPLETED
           \<and> currentPiece s' = currentPiece s \<and> bag s' = bag s
           \<and> emitted s' = emitted s @ lockEvents s p
           \<and> game_over \<notin> set (lockEvents s p)"
proof -
  have "lockCurrentPiece s = Some ((lineHandled s p)\<lparr>state := COMPLETED\<rparr>)"
    unfolding lockCurrentPiece_unfold [OF assms(1)] using assms(2)
    by (simp only: lineHandled_lines if_True)
  moreover have "game_over \<notin> set (lockEvents s p)"
    by (simp add: lockEvents_def Let_def)
  ultimately show ?thesis
    by (simp add: lineHandled_emitted)
qed

text \<open>
  A Playing state with 998 lines in which the active I piece completes the bottom row.
\<close>

definition board_row21_open :: Grid where
  "board_row21_open =
     replicate 21 (replicate BOARD_WIDTH None)
     @ [[None, None, None, None, Some O_piece, Some O_piece, Some O_piece, Some O_piece,
         Some O_piece, Some O_piece]]"

definition piece_I_bottom :: Piece where
  "piece_I_bottom =
     \<lparr>ptype = I_piece, position = \<lparr>pos_x = 0, pos_y = 20\<rparr>, rotation = SPAWN,
      locked = True, piece_lockTimer = 0\<rparr>"

definition game_998 :: Game where
  "game_998 =
     (Game_new 54321)
       \<lparr>board := board_row21_open, state := PLAYING,
        stats := \<lparr>score = 0, level = 29, lines = 998, combo = 0, backToBack = False\<rparr>,
        currentPiece := Some piece_I_bottom\<rparr>"

lemma lockPiece_row21_open:
  "lockPiece board_row21_open I_piece \<lparr>pos_x = 0, pos_y = 20\<rparr> SPAWN =
     replicate 21 (replicate BOARD_WIDTH None)
     @ [[Some I_piece, Some I_piece, Some I_piece, Some I_piece, Some O_piece, Some O_piece,
         Some O_piece, Some O_piece, Some O_piece, Some O_piece]]"
  by (simp add: lockPiece_def getShape_def board_row21_open_def Let_def list_update_append
      nth_append)

lemma clearLines_row21:
  "snd (clearLines (lockPiece board_row21_open I_piece \<lparr>pos_x = 0, pos_y = 20\<rparr> SPAWN)) = [21]"
  by (simp add: lockPiece_row21_open clearLines_indices detectedIndices_append
      detectedIndices_empty_rows isFullRow_def)

lemma game_998_fields:
  "currentPiece game_998 = Some piece_I_bottom" "board game_998 = board_row21_open"
  "stats game_998 = \<lparr>score = 0, level = 29, lines = 998, combo = 0, backToBack = False\<rparr>"
  "state game_998 = PLAYING" "emitted game_998 = []"
  by (simp_all add: game_998_def Game_new_def)

lemma lockEvents_game_998:
  "lockEvents game_998 piece_I_bottom = [piece_lock piece_I_bottom, line_clear [21]]"
  by (simp add: lockEvents_def game_998_fields piece_I_bottom_def clearLines_row21)

lemma linesCleared_game_998: "linesCleared game_998 piece_I_bottom = 1"
  by (simp add: linesCleared_def game_998_fields piece_I_bottom_def clearLines_row21)

text \<open>
  C3 as stated fails: the lock that brings the lines from 998 to 999 ends in the state
  Completed having emitted piece_lock and line_clear only.
\<close>

theorem completion_event_counterexample:
  "\<exists>s'. state game_998 = PLAYING \<and> lines (stats game_998) = 998 \<and> emitted game_998 = []
     \<and> lockCurrentPiece game_998 = Some s'
     \<and> lines (stats s') = 999 \<and> state s' = COMPLETED
     \<and> emitted s' = [piece_lock piece_I_bottom, line_clear [21]]"
proof -
  have "lockCurrentPiece game_998 = Some ((lineHandled game_998 piece_I_bottom)\<lparr>state := COMPLETED\<rparr>)"
    unfolding lockCurrentPiece_unfold [OF game_998_fields(1)]
    by (simp add: lineHandled_lines linesCleared_game_998 game_998_fields(3))
  then show ?thesis
    by (simp add: lineHandled_emitted lockEvents_game_998 lineHandled_lines
        linesCleared_game_998 game_998_fields)
qed

theorem lock_completion_state_only_witness:
  "currentPiece game_998 = Some piece_I_bottom
   \<and> lines (stats game_998) + int (linesCleared game_998 piece_I_bottom) \<ge> 999
   \<and> (\<exists>s'. lockCurrentPiece game_998 = Some s' \<and> state s' = COMPLETED
         \<and> emitted s' = emitted game_998 @ [piece_lock piece_I_bottom, line_clear [21]])"
proof -
  have l: "lines (stats game_998) + int (linesCleared game_998 piece_I_bottom) \<ge> 999"
    by (simp add: linesCleared_game_998 game_998_fields(3))
  from lock_completion_state_only [OF game_998_fields(1) l] l game_998_fields(1)
  show ?thesis
    by (auto simp: lockEvents_game_998)
qed

end
